theory Spec2Isabelle
  imports Complex_Main "HOL-Library.List_Lexorder" "HOL-Library.Char_ord"
begin

section \<open>Strings and paths\<close>

text \<open>
  JavaScript strings are modelled as \<^typ>\<open>string\<close>. The sourcemap paths and contents the
  program handles are taken as their UTF-8 bytes, so the character class \<open>[a-z]\<close> is
  the byte range \<open>a\<close> .. \<open>z\<close>.
\<close>

definition is_lower :: "char \<Rightarrow> bool" where
  "is_lower c = (of_char (CHR ''a'') \<le> (of_char c :: nat) \<and> (of_char c :: nat) \<le> of_char (CHR ''z''))"

text \<open>
  \<^verbatim>\<open>sourcePath.replace(/^[a-z]+:\/\/\//, '')\<close> (main.js, line 105). The pattern is
  anchored at the start and has no \<open>g\<close> flag, so at most one match is removed. The greedy
  run \<open>[a-z]+\<close> is the longest prefix of lower-case letters; no shorter run can be followed
  by a colon, so no backtracking is needed. After the run the pattern wants one colon and
  three slashes.
\<close>

definition cleanPath :: "string \<Rightarrow> string" where
  "cleanPath sourcePath =
     (let scheme = takeWhile is_lower sourcePath;
          rest = dropWhile is_lower sourcePath
      in if scheme \<noteq> [] \<and> take 4 rest = '':///'' then drop 4 rest else sourcePath)"

subsection \<open>\<open>path.join\<close> and \<open>path.dirname\<close> (POSIX flavour of the Node.js \<open>path\<close> module)\<close>

text \<open>
  \<^verbatim>\<open>String.prototype.split('/')\<close>: the pieces between slashes; an empty string gives one
  empty piece.
\<close>

fun split_slash :: "string \<Rightarrow> string list" where
  "split_slash [] = [[]]"
| "split_slash (c # cs) =
     (if c = CHR ''/'' then [] # split_slash cs
      else (case split_slash cs of
              [] \<Rightarrow> [[c]]
            | seg # segs \<Rightarrow> (c # seg) # segs))"

text \<open>\<^verbatim>\<open>Array.prototype.join(sep)\<close>.\<close>

fun join_with :: "string \<Rightarrow> string list \<Rightarrow> string" where
  "join_with sep [] = []"
| "join_with sep [x] = x"
| "join_with sep (x # y # ys) = x @ sep @ join_with sep (y # ys)"

text \<open>
  \<open>normalizeString\<close> of the \<open>path\<close> module, segment by segment. The accumulator holds the
  segments kept so far, last one first. An empty segment and \<open>.\<close> are dropped; \<open>..\<close>
  removes the last kept segment unless there is none or it is itself \<open>..\<close>, in which
  case \<open>..\<close> is kept when the path is relative (\<open>allowAboveRoot\<close>).
\<close>

fun normalize_segs :: "bool \<Rightarrow> string list \<Rightarrow> string list \<Rightarrow> string list" where
  "normalize_segs allowAboveRoot acc [] = rev acc"
| "normalize_segs allowAboveRoot acc (seg # segs) =
     (if seg = [] \<or> seg = ''.'' then normalize_segs allowAboveRoot acc segs
      else if seg = ''..'' then
        (case acc of
           [] \<Rightarrow> normalize_segs allowAboveRoot (if allowAboveRoot then [''..''] else []) segs
         | a # as \<Rightarrow>
             if a = ''..''
             then normalize_segs allowAboveRoot (if allowAboveRoot then ''..'' # acc else acc) segs
             else normalize_segs allowAboveRoot as segs)
      else normalize_segs allowAboveRoot (seg # acc) segs)"

definition path_normalize :: "string \<Rightarrow> string" where
  "path_normalize p =
     (if p = [] then ''.''
      else
        let isAbsolute = (hd p = CHR ''/'');
            trailingSeparator = (last p = CHR ''/'');
            res = join_with ''/'' (normalize_segs (\<not> isAbsolute) [] (split_slash p))
        in if res = [] then (if isAbsolute then ''/'' else if trailingSeparator then ''./'' else ''.'')
           else (if isAbsolute then ''/'' else []) @ res @ (if trailingSeparator then ''/'' else []))"

text \<open>\<^verbatim>\<open>path.join(...args)\<close>: empty arguments are skipped, the rest joined by a slash and normalised.\<close>

definition path_join :: "string list \<Rightarrow> string" where
  "path_join args =
     (let parts = filter (\<lambda>a. a \<noteq> []) args
      in if parts = [] then ''.'' else path_normalize (join_with ''/'' parts))"

text \<open>\<^verbatim>\<open>const localPath = path.join('.', cleanPath)\<close> (main.js, line 106).\<close>

definition localPath_of :: "string \<Rightarrow> string" where
  "localPath_of sourcePath = path_join [''.'', cleanPath sourcePath]"


text \<open>
  \<^verbatim>\<open>path.dirname(path)\<close>. The scan runs from the last character down to index 1,
  skips trailing slashes, and stops at the first slash after a non-slash character.
\<close>

fun dirname_scan :: "string \<Rightarrow> nat \<Rightarrow> bool \<Rightarrow> nat option" where
  "dirname_scan p 0 matchedSlash = None"
| "dirname_scan p (Suc i) matchedSlash =
     (if p ! Suc i = CHR ''/''
      then (if \<not> matchedSlash then Some (Suc i) else dirname_scan p i matchedSlash)
      else dirname_scan p i False)"

definition path_dirname :: "string \<Rightarrow> string" where
  "path_dirname p =
     (if p = [] then ''.''
      else
        let hasRoot = (hd p = CHR ''/'')
        in case dirname_scan p (length p - 1) True of
             None \<Rightarrow> (if hasRoot then ''/'' else ''.'')
           | Some e \<Rightarrow> if hasRoot \<and> e = 1 then ''//'' else take e p)"

subsection \<open>Which file a path names\<close>

text \<open>
  A relative path is resolved against the working directory, whose place is given by the
  names from the root down to it (\<open>base\<close>). \<open>climb\<close> walks the segments of the path: an
  empty segment and \<open>.\<close> stay, \<open>..\<close> goes up (the root is its own parent), a name goes
  down.
\<close>

fun climb :: "string list \<Rightarrow> string list \<Rightarrow> string list" where
  "climb here [] = here"
| "climb here (seg # segs) =
     (if seg = [] \<or> seg = ''.'' then climb here segs
      else if seg = ''..'' then climb (butlast here) segs
      else climb (here @ [seg]) segs)"

fun common_prefix :: "'a list \<Rightarrow> 'a list \<Rightarrow> 'a list" where
  "common_prefix (x # xs) (y # ys) = (if x = y then x # common_prefix xs ys else [])"
| "common_prefix xs ys = []"

text \<open>The way from \<open>base\<close> to \<open>target\<close>: up to their last common ancestor, then down.\<close>

definition relative_to :: "string list \<Rightarrow> string list \<Rightarrow> string list" where
  "relative_to base target =
     (let k = length (common_prefix base target)
      in replicate (length base - k) ''..'' @ drop k target)"

text \<open>
  The canonical path of what \<open>p\<close> names: the shortest relative path from the working
  directory to it. Two paths name the same file or directory exactly when their canonical
  paths are equal, so \<open>x.js\<close> and \<open>../repo/x.js\<close> are one file when the working directory
  is called \<open>repo\<close>. A trailing slash is kept. (The file system has no links, and names
  are compared as they are written.)
\<close>

definition resolve :: "string list \<Rightarrow> string \<Rightarrow> string" where
  "resolve base p =
     (let start = (if p \<noteq> [] \<and> hd p = CHR ''/'' then [] else base);
          segs = relative_to base (climb start (split_slash p));
          q = (if segs = [] then ''.'' else join_with ''/'' segs)
      in if 1 < length p \<and> last p = CHR ''/'' then q @ ''/'' else q)"

section \<open>Relative time phrases\<close>

text \<open>
  \<^verbatim>\<open>UNITS\<close> (main.js, lines 29-37), in the insertion order that \<^verbatim>\<open>Object.entries\<close>
  enumerates. Times are whole milliseconds. The month entry is written
  \<^verbatim>\<open>(365 / 12) * 24 * 60 * 60 * 1000\<close>; in IEEE doubles the product is exactly 2628000000.
\<close>

datatype time_unit = Year | Month | Week | Day | Hour | Minute | Second

definition UNITS :: "(time_unit \<times> int) list" where
  "UNITS =
     [(Year, 365 * 24 * 60 * 60 * 1000),
      (Month, 2628000000),
      (Week, 7 * 24 * 60 * 60 * 1000),
      (Day, 24 * 60 * 60 * 1000),
      (Hour, 60 * 60 * 1000),
      (Minute, 60 * 1000),
      (Second, 1000)]"

text \<open>
  An integer-valued JavaScript number in sign and magnitude, so that \<open>-0\<close> (which
  \<^verbatim>\<open>Math.round\<close> returns for arguments in \<open>[-0.5, 0)\<close>) stays apart from \<open>+0\<close>.
\<close>

datatype jsint = JsInt (negative: bool) (magnitude: nat)

text \<open>
  \<^verbatim>\<open>Math.round(diffInMs / msValue)\<close> for a positive \<open>msValue\<close>: the nearest integer, a
  tie going up. The quotient is taken exactly. The double-precision quotient rounds to the
  same integer as long as it stays below \<open>2^17\<close>, which for the longest unit is a
  difference of more than a hundred thousand years.
\<close>

definition math_round_div :: "int \<Rightarrow> int \<Rightarrow> jsint" where
  "math_round_div diffInMs msValue =
     JsInt (diffInMs < 0) (nat \<bar>(2 * diffInMs + msValue) div (2 * msValue)\<bar>)"

definition digit_char :: "nat \<Rightarrow> char" where
  "digit_char d = ''0123456789'' ! d"

function show_nat :: "nat \<Rightarrow> string" where
  "show_nat n = (if n < 10 then [digit_char n] else show_nat (n div 10) @ [digit_char (n mod 10)])"
  by pat_completeness auto
termination
  by (relation "measure id") auto

declare show_nat.simps [simp del]

text \<open>Grouping of the English number format: a comma before every block of three digits.\<close>

function group_digits :: "string \<Rightarrow> string" where
  "group_digits ds =
     (if length ds \<le> 3 then ds
      else group_digits (take (length ds - 3) ds) @ '','' @ drop (length ds - 3) ds)"
  by pat_completeness auto
termination
  by (relation "measure length") auto

declare group_digits.simps [simp del]

definition unit_name :: "time_unit \<Rightarrow> string" where
  "unit_name u =
     (case u of Year \<Rightarrow> ''year'' | Month \<Rightarrow> ''month'' | Week \<Rightarrow> ''week'' | Day \<Rightarrow> ''day''
      | Hour \<Rightarrow> ''hour'' | Minute \<Rightarrow> ''minute'' | Second \<Rightarrow> ''second'')"

text \<open>
  \<^verbatim>\<open>new Intl.RelativeTimeFormat('en', { style: 'long' }).format(value, unit)\<close> with the
  default \<open>numeric: 'always'\<close>: a negative value, \<open>-0\<close> included, is phrased in the past,
  any other value in the future; the unit is singular for 1 only.
\<close>

definition timeFormat :: "jsint \<Rightarrow> time_unit \<Rightarrow> string" where
  "timeFormat v u =
     (let n = magnitude v;
          num = group_digits (show_nat n);
          name = unit_name u @ (if n = 1 then [] else ''s'')
      in if negative v then num @ '' '' @ name @ '' ago''
         else ''in '' @ num @ '' '' @ name)"

text \<open>
  \<^verbatim>\<open>formatTimeSince(time)\<close> (main.js, lines 41-51); \<open>now\<close> is what \<^verbatim>\<open>Date.now()\<close> returns.
  The loop returns at the first entry of \<open>UNITS\<close> that passes the test; falling out of
  the loop would return \<open>undefined\<close>, here \<open>None\<close>.
\<close>

definition unit_matches :: "int \<Rightarrow> time_unit \<times> int \<Rightarrow> bool" where
  "unit_matches absDiff e = (case e of (unit, msValue) \<Rightarrow> absDiff \<ge> msValue \<or> unit = Second)"

definition formatTimeSince :: "int \<Rightarrow> int \<Rightarrow> string option" where
  "formatTimeSince time now =
     (let diffInMs = time - now;
          absDiff = \<bar>diffInMs\<bar>
      in case find (unit_matches absDiff) UNITS of
           Some (unit, msValue) \<Rightarrow> Some (timeFormat (math_round_div diffInMs msValue) unit)
         | None \<Rightarrow> None)"


section \<open>The local mirror\<close>

text \<open>
  The files and directories at and around the working directory, as a map from canonical
  paths to nodes. A file holds its text and its modification time in milliseconds.
  Directories carry no time stamp: the program asks for the time of a path only after
  reading it as a file.
\<close>

datatype node = File string int | Dir

type_synonym tree = "string \<Rightarrow> node option"

definition strip_slash :: "string \<Rightarrow> string" where
  "strip_slash p = (if 1 < length p \<and> last p = CHR ''/'' then butlast p else p)"

text \<open>
  What a canonical path names. The working directory and its ancestors (\<open>.\<close>, \<open>..\<close>,
  \<open>../..\<close>) are directories that exist; a path with a trailing slash names a directory or
  nothing.
\<close>

definition lookup :: "tree \<Rightarrow> string \<Rightarrow> node option" where
  "lookup t p =
     (let q = strip_slash p
      in if q = ''.'' \<or> list_all (\<lambda>seg. seg = ''..'') (split_slash q) then Some Dir
         else (case t q of
                 Some (File c m) \<Rightarrow> if q = p then Some (File c m) else None
               | other \<Rightarrow> other))"

definition quoted :: "string \<Rightarrow> string" where
  "quoted p = [CHR 0x27] @ p @ [CHR 0x27]"

text \<open>
  The calls of \<open>fs/promises\<close> that the program makes. Each takes the place of the working
  directory and the path as the program wrote it; the path is resolved, and a message
  names it as written. (The paths the program passes are relative, and normalised by
  \<^verbatim>\<open>path.join\<close> or plain names, so \<open>..\<close> stands only at their front, where it climbs
  through directories that exist.)

  \<^verbatim>\<open>fs.access(filePath)\<close> resolves for every path that names a node.
\<close>

definition fs_access :: "string list \<Rightarrow> tree \<Rightarrow> string \<Rightarrow> bool" where
  "fs_access base t p = (lookup t (resolve base p) \<noteq> None)"

text \<open>\<^verbatim>\<open>fs.readFile(path, 'utf-8')\<close>: the text, or the message of the error thrown.\<close>

definition fs_readFile :: "string list \<Rightarrow> tree \<Rightarrow> string \<Rightarrow> string + string" where
  "fs_readFile base t p =
     (case lookup t (resolve base p) of
        Some (File c m) \<Rightarrow> Inr c
      | Some Dir \<Rightarrow> Inl ''EISDIR: illegal operation on a directory, read''
      | None \<Rightarrow> Inl (''ENOENT: no such file or directory, open '' @ quoted p))"

text \<open>
  \<^verbatim>\<open>(await fs.stat(path)).mtime\<close> for a path that names a file. The program reaches
  the call only after \<^verbatim>\<open>readFile\<close> has returned the text of the same path, so never
  for a directory; the model has no time for a directory and lets that branch throw.
\<close>

definition fs_stat_mtime :: "string list \<Rightarrow> tree \<Rightarrow> string \<Rightarrow> string + int" where
  "fs_stat_mtime base t p =
     (case lookup t (resolve base p) of
        Some (File c m) \<Rightarrow> Inr m
      | Some Dir \<Rightarrow> Inl (''stat of a directory: '' @ quoted p)
      | None \<Rightarrow> Inl (''ENOENT: no such file or directory, stat '' @ quoted p))"

text \<open>
  \<^verbatim>\<open>fs.mkdir(dir, { recursive: true })\<close>: every prefix of the path that names nothing
  becomes a directory; a file in the way makes the call throw. The result is the tree
  after the call and the message of the error, if one was thrown.
\<close>

fun mkdir_segs :: "string \<Rightarrow> string list \<Rightarrow> tree \<Rightarrow> string \<Rightarrow> string list \<Rightarrow> tree \<times> string option" where
  "mkdir_segs dir base t pre [] = (t, None)"
| "mkdir_segs dir base t pre (seg # segs) =
     (let q = (if pre = [] then seg else pre @ ''/'' @ seg)
      in case lookup t (resolve base q) of
           Some Dir \<Rightarrow> mkdir_segs dir base t q segs
         | Some (File c m) \<Rightarrow>
             (t, Some ((if segs = [] then ''EEXIST: file already exists, mkdir ''
                        else ''ENOTDIR: not a directory, mkdir '') @ quoted dir))
         | None \<Rightarrow> mkdir_segs dir base (t(resolve base q \<mapsto> Dir)) q segs)"

definition fs_mkdir :: "string list \<Rightarrow> tree \<Rightarrow> string \<Rightarrow> tree \<times> string option" where
  "fs_mkdir base t dir = mkdir_segs dir base t [] (split_slash (strip_slash dir))"

text \<open>
  \<^verbatim>\<open>fs.writeFile(path, content, 'utf-8')\<close>: creates or replaces the file, stamped with the
  current time \<open>now\<close>. It throws when the path names a directory, ends in a slash, or
  has no directory to live in.
\<close>

definition fs_writeFile :: "string list \<Rightarrow> tree \<Rightarrow> int \<Rightarrow> string \<Rightarrow> string \<Rightarrow> tree \<times> string option" where
  "fs_writeFile base t now p c =
     (if lookup t (resolve base p) = Some Dir \<or> (p \<noteq> [] \<and> last p = CHR ''/'')
      then (t, Some (''EISDIR: illegal operation on a directory, open '' @ quoted p))
      else if lookup t (resolve base (path_dirname p)) \<noteq> Some Dir
      then (t, Some (''ENOENT: no such file or directory, open '' @ quoted p))
      else (t(resolve base p \<mapsto> File c now), None))"

text \<open>
  The state a job runs in: the tree, a journal of the mutating calls issued so far
  (whether or not they threw, with the paths as the program wrote them), and the place of
  the working directory, which the program never changes.
\<close>

datatype fs_call = Mkdir string | WriteFile string string

record world =
  tree :: tree
  journal :: "fs_call list"
  cwd :: "string list"

section \<open>Extraction of one sourcemap\<close>

text \<open>
  A decoded JSON value other than \<open>null\<close>, seen through the four fields the program
  reads; a field that is missing or \<open>null\<close> is \<open>None\<close>. An entry of \<open>sources\<close> is a string, an entry of \<open>sourcesContent\<close>
  is a string or \<open>null\<close>; \<open>js\<close> and \<open>css\<close> are the keys of the objects \<open>res.js\<close> and
  \<open>res.css\<close> of the revision manifest, as \<^verbatim>\<open>Object.keys\<close> lists them. (Entries of
  another type make the loop throw a \<open>TypeError\<close>, which the \<open>catch\<close> clause treats like
  every other error.)
\<close>

record document =
  sources :: "string list option"
  sourcesContent :: "string option list option"
  js :: "string list option"
  css :: "string list option"

text \<open>
  What \<^verbatim>\<open>fetch(url, ...)\<close> and \<^verbatim>\<open>req.json()\<close> deliver: each either throws (with a
  message) or returns; the body decodes to \<open>null\<close> or to an object. \<open>req.ok\<close> is true for
  a status in 200..299.
\<close>

datatype body = JsonThrows string | JsonNull | JsonDoc document

datatype fetched = FetchThrows string | Response (status: nat) (json: body)

definition response_ok :: "nat \<Rightarrow> bool" where
  "response_ok st = (200 \<le> st \<and> st \<le> 299)"

record fileOutcome =
  path :: string
  isChanged :: bool
  previousModified :: "int option"

record results =
  url :: string
  success :: bool
  files :: "fileOutcome list"
  error :: "string option"

text \<open>
  \<^verbatim>\<open>getFileHash(content)\<close> (main.js, lines 16-18) is the hexadecimal MD5 digest of the
  content. The digest function is a parameter \<open>H\<close> of everything below.
\<close>

definition getFileHash :: "(string \<Rightarrow> 'h) \<Rightarrow> string \<Rightarrow> 'h" where
  "getFileHash H content = H content"

text \<open>\<^verbatim>\<open>fileExists(filePath)\<close> (main.js, lines 20-27).\<close>

definition fileExists :: "string list \<Rightarrow> tree \<Rightarrow> string \<Rightarrow> bool" where
  "fileExists base t filePath = fs_access base t filePath"

text \<open>
  Lines 124-131: the branch taken when \<open>isChanged\<close> holds. The result is the world after
  the calls, and either the message of the error thrown or the outcome pushed.
\<close>

definition write_changed :: "int \<Rightarrow> string \<Rightarrow> string \<Rightarrow> int option \<Rightarrow> world \<Rightarrow> world \<times> (string + fileOutcome)" where
  "write_changed now localPath sourceContent prev w =
     (let dir = path_dirname localPath;
          w1 = w\<lparr>journal := journal w @ [Mkdir dir]\<rparr>
      in case fs_mkdir (cwd w) (tree w1) dir of
           (t1, Some e) \<Rightarrow> (w1\<lparr>tree := t1\<rparr>, Inl e)
         | (t1, None) \<Rightarrow>
             (let w2 = w1\<lparr>tree := t1, journal := journal w1 @ [WriteFile localPath sourceContent]\<rparr>
              in case fs_writeFile (cwd w) t1 now localPath sourceContent of
                   (t2, Some e) \<Rightarrow> (w2\<lparr>tree := t2\<rparr>, Inl e)
                 | (t2, None) \<Rightarrow>
                     (w2\<lparr>tree := t2\<rparr>,
                      Inr \<lparr>path = localPath, isChanged = True, previousModified = prev\<rparr>)))"

text \<open>
  Lines 105-137: the body of the loop for one entry whose content is present. An
  unchanged file is pushed without \<open>previousModified\<close>, which reads as \<open>undefined\<close>;
  \<open>None\<close> stands for both \<open>null\<close> and \<open>undefined\<close>.
\<close>

definition extract_entry :: "(string \<Rightarrow> 'h) \<Rightarrow> int \<Rightarrow> string \<Rightarrow> string \<Rightarrow> world \<Rightarrow> world \<times> (string + fileOutcome)" where
  "extract_entry H now sourcePath sourceContent w =
     (let localPath = path_join [''.'', cleanPath sourcePath];
          newHash = getFileHash H sourceContent
      in if fileExists (cwd w) (tree w) localPath then
           (case fs_readFile (cwd w) (tree w) localPath of
              Inl e \<Rightarrow> (w, Inl e)
            | Inr existingContent \<Rightarrow>
                (let existingHash = getFileHash H existingContent;
                     isChanged = (newHash \<noteq> existingHash)
                 in if isChanged then
                      (case fs_stat_mtime (cwd w) (tree w) localPath of
                         Inl e \<Rightarrow> (w, Inl e)
                       | Inr m \<Rightarrow> write_changed now localPath sourceContent (Some m) w)
                    else (w, Inr \<lparr>path = localPath, isChanged = False, previousModified = None\<rparr>)))
         else write_changed now localPath sourceContent None w)"

text \<open>
  Lines 100-138: the loop over \<open>sources\<close>, with \<open>sourcesContent\<close> read at the same
  index. An index past the end of \<open>sourcesContent\<close> reads \<open>undefined\<close>; \<open>undefined\<close>,
  \<open>null\<close> and the empty string are all falsy and skipped. The first component of the
  result is the message of an error thrown inside the loop.
\<close>

fun extract_loop :: "(string \<Rightarrow> 'h) \<Rightarrow> int \<Rightarrow> string list \<Rightarrow> string option list \<Rightarrow> fileOutcome list \<Rightarrow> world
    \<Rightarrow> string option \<times> fileOutcome list \<times> world" where
  "extract_loop H now [] cs fs w = (None, fs, w)"
| "extract_loop H now (sourcePath # sps) cs fs w =
     (case (case cs of [] \<Rightarrow> None | c # _ \<Rightarrow> c) of
        None \<Rightarrow> extract_loop H now sps (tl cs) fs w
      | Some sourceContent \<Rightarrow>
          if sourceContent = [] then extract_loop H now sps (tl cs) fs w
          else (case extract_entry H now sourcePath sourceContent w of
                  (w', Inl e) \<Rightarrow> (Some e, fs, w')
                | (w', Inr f) \<Rightarrow> extract_loop H now sps (tl cs) (fs @ [f]) w'))"

text \<open>
  \<^verbatim>\<open>downloadAndExtractSourcemap(url)\<close> (main.js, lines 72-145). \<open>net\<close> says what the
  request for a URL delivers. Every \<open>throw\<close> inside the \<open>try\<close> block ends in the
  \<open>catch\<close> clause, which records \<open>error.message\<close>; reading \<open>sources\<close> of a body that
  is \<open>null\<close> is one of them.
\<close>

definition downloadAndExtractSourcemap ::
  "(string \<Rightarrow> 'h) \<Rightarrow> int \<Rightarrow> (string \<Rightarrow> fetched) \<Rightarrow> string \<Rightarrow> world \<Rightarrow> results \<times> world" where
  "downloadAndExtractSourcemap H now net u w =
     (let results = \<lparr>url = u, success = True, files = [], error = None\<rparr>
      in case net u of
           FetchThrows msg \<Rightarrow> (results\<lparr>success := False, error := Some msg\<rparr>, w)
         | Response st b \<Rightarrow>
             if \<not> response_ok st
             then (results\<lparr>success := False, error := Some (''HTTP '' @ show_nat st)\<rparr>, w)
             else (case b of
                     JsonThrows msg \<Rightarrow> (results\<lparr>success := False, error := Some msg\<rparr>, w)
                   | JsonNull \<Rightarrow>
                       (results\<lparr>success := False,
                                error := Some (''Cannot read properties of null (reading ''
                                               @ quoted ''sources'' @ '')'')\<rparr>, w)
                   | JsonDoc sm \<Rightarrow>
                       (case (sources sm, sourcesContent sm) of
                          (Some srcs, Some cs) \<Rightarrow>
                            (case extract_loop H now srcs cs [] w of
                               (None, fs, w') \<Rightarrow> (results\<lparr>files := fs\<rparr>, w')
                             | (Some msg, fs, w') \<Rightarrow>
                                 (results\<lparr>success := False, files := fs, error := Some msg\<rparr>, w'))
                        | _ \<Rightarrow> (results\<lparr>success := False, error := Some ''Invalid sourcemap format''\<rparr>, w))))"


section \<open>Batches\<close>

text \<open>
  What can be observed of a run of \<^verbatim>\<open>processInBatches\<close>: a job is started, a job has
  finished, and the progress line printed after a batch. Jobs are numbered by their
  index in \<open>items\<close>.
\<close>

datatype event = Started nat | Finished nat | Progress nat nat

text \<open>
  The jobs of a batch run to completion one after the other in the order given, each on
  the state its predecessor left.
\<close>

fun settle :: "('a \<Rightarrow> 's \<Rightarrow> 'r \<times> 's) \<Rightarrow> (nat \<times> 'a) list \<Rightarrow> 's \<Rightarrow> (nat \<times> 'r) list \<times> 's" where
  "settle processor [] s = ([], s)"
| "settle processor (jx # jxs) s =
     (case processor (snd jx) s of
        (r, s1) \<Rightarrow> (case settle processor jxs s1 of (rs, s2) \<Rightarrow> ((fst jx, r) # rs, s2)))"

text \<open>
  \<^verbatim>\<open>await Promise.all(batch.map(processor))\<close> (main.js, line 152). \<open>batch.map\<close> starts
  every job of the batch in order. The order in which they finish is not fixed by the
  program: \<open>finish\<close> ranks the jobs by completion time, and they complete in that order
  (jobs of equal rank in the order they were started). \<^verbatim>\<open>Promise.all\<close> hands the values
  back in the order of the batch, whatever the order of completion.
\<close>

definition promise_all ::
  "('a \<Rightarrow> 's \<Rightarrow> 'r \<times> 's) \<Rightarrow> (nat \<Rightarrow> nat) \<Rightarrow> nat \<Rightarrow> 'a list \<Rightarrow> 's \<Rightarrow> 'r list \<times> 's \<times> event list" where
  "promise_all processor finish i batch s =
     (let jobs = zip [i ..< i + length batch] batch;
          completion = sort_key (\<lambda>jx. finish (fst jx)) jobs
      in case settle processor completion s of
           (done, s') \<Rightarrow>
             (map snd (sort_key fst done), s',
              map (\<lambda>jx. Started (fst jx)) jobs @ map (\<lambda>jx. Finished (fst jx)) completion))"

text \<open>
  The loop of \<^verbatim>\<open>processInBatches\<close> (main.js, lines 150-155). With \<open>batchSize = 0\<close> and a
  non-empty \<open>items\<close> the index never advances and the loop does not end, so the
  function is partial: \<open>None\<close> stands for a run that never returns.
\<close>

partial_function (option) batches_loop ::
  "'a list \<Rightarrow> nat \<Rightarrow> ('a \<Rightarrow> 's \<Rightarrow> 'r \<times> 's) \<Rightarrow> (nat \<Rightarrow> nat) \<Rightarrow> nat \<Rightarrow> 'r list \<Rightarrow> 's \<Rightarrow> event list
    \<Rightarrow> ('r list \<times> 's \<times> event list) option" where
  "batches_loop items batchSize processor finish i acc s tr =
     (if i < length items then
        (case promise_all processor finish i (take batchSize (drop i items)) s of
           (batchResults, s', ev) \<Rightarrow>
             batches_loop items batchSize processor finish (i + batchSize) (acc @ batchResults) s'
               (tr @ ev @ [Progress (min (i + batchSize) (length items)) (length items)]))
      else Some (acc, s, tr))"

declare batches_loop.simps [code]

definition processInBatches ::
  "'a list \<Rightarrow> nat \<Rightarrow> ('a \<Rightarrow> 's \<Rightarrow> 'r \<times> 's) \<Rightarrow> (nat \<Rightarrow> nat) \<Rightarrow> 's \<Rightarrow> ('r list \<times> 's \<times> event list) option" where
  "processInBatches items batchSize processor finish s =
     batches_loop items batchSize processor finish 0 [] s []"

text \<open>
  The events of batch number \<open>c\<close> when \<open>n\<close> items are processed: the jobs with
  indices from \<open>c * batchSize\<close> up to, and not including, \<open>c * batchSize + batchSize\<close>
  (or \<open>n\<close>, if that is less) are started in order, finish in the order of their rank, and
  the progress line follows.
\<close>

definition chunk_events :: "(nat \<Rightarrow> nat) \<Rightarrow> nat \<Rightarrow> nat \<Rightarrow> nat \<Rightarrow> event list" where
  "chunk_events finish n batchSize c =
     (let lo = c * batchSize;
          hi = min (lo + batchSize) n
      in map Started [lo ..< hi] @ map Finished (sort_key finish [lo ..< hi]) @ [Progress hi n])"

section \<open>The report\<close>

definition HOST :: string where
  "HOST = ''spaces.im''"

definition CONCURRENCY :: nat where
  "CONCURRENCY = 10"

text \<open>
  \<^verbatim>\<open>stats\<close> (main.js, lines 11-14). \<open>changed\<close> is a \<^verbatim>\<open>Map\<close> from path to
  \<open>{previousModified}\<close>, kept as a list of entries in insertion order; \<open>failed\<close> is the
  array of \<open>{url, error}\<close>.
\<close>

record stats =
  changed :: "(string \<times> int option) list"
  failed :: "(string \<times> string option) list"

text \<open>\<^verbatim>\<open>Map.prototype.set\<close>: a known key keeps its place and takes the new value.\<close>

fun map_set :: "'k \<Rightarrow> 'v \<Rightarrow> ('k \<times> 'v) list \<Rightarrow> ('k \<times> 'v) list" where
  "map_set k v [] = [(k, v)]"
| "map_set k v (e # m) = (if fst e = k then (k, v) # m else e # map_set k v m)"

text \<open>The body of the loop over \<open>results\<close> (main.js, lines 171-182).\<close>

definition collect :: "results \<Rightarrow> stats \<Rightarrow> stats" where
  "collect result st =
     (if \<not> success result then st\<lparr>failed := failed st @ [(url result, error result)]\<rparr>
      else
        let changedFiles = filter isChanged (files result)
        in st\<lparr>changed := fold (\<lambda>file m. map_set (path file) (previousModified file) m)
                              changedFiles (changed st)\<rparr>)"

definition aggregate :: "results list \<Rightarrow> stats" where
  "aggregate rs = fold collect rs \<lparr>changed = [], failed = []\<rparr>"

text \<open>
  Lines 190-193: one line per changed file. A \<^verbatim>\<open>Date\<close> is always truthy, so every
  recorded time gets a phrase.
\<close>

definition changed_line :: "int \<Rightarrow> string \<times> int option \<Rightarrow> string" where
  "changed_line now e =
     (case e of (file, info) \<Rightarrow>
        file @ (case info of
                  Some t \<Rightarrow> '' ('' @ (case formatTimeSince t now of Some ph \<Rightarrow> ph | None \<Rightarrow> ''undefined'') @ '')''
                | None \<Rightarrow> '' (new)''))"

definition failed_line :: "string \<times> string option \<Rightarrow> string" where
  "failed_line e =
     (case e of (u, err) \<Rightarrow> u @ '' ('' @ (case err of Some m \<Rightarrow> m | None \<Rightarrow> ''null'') @ '')'')"

text \<open>
  Lines 184-204. \<^verbatim>\<open>a[0].localeCompare(b[0])\<close> orders paths by the collation of the
  default locale; \<open>collate\<close> maps a path to its collation key, and the sort is stable.
\<close>

definition report_lines :: "(string \<Rightarrow> 'k::linorder) \<Rightarrow> int \<Rightarrow> stats \<Rightarrow> string list" where
  "report_lines collate now st =
     [''chore: Changed '' @ show_nat (length (changed st)) @ '' file(s)'']
     @ (if length (changed st) > 0 then
          [[CHR 0x0A] @ ''Changed files ('' @ show_nat (length (changed st)) @ ''):'',
           [CHR 0x0A] @ ''<pre>'']
          @ map (changed_line now) (sort_key (\<lambda>e. collate (fst e)) (changed st))
          @ [''</pre>'']
        else [])
     @ (if length (failed st) > 0 then
          [[CHR 0x0A] @ ''Failed downloads ('' @ show_nat (length (failed st)) @ ''):'',
           [CHR 0x0A] @ ''<pre>'']
          @ map failed_line (failed st)
          @ [''</pre>'']
        else [])"

text \<open>
  \<^verbatim>\<open>String.prototype.replaceAll(pattern, '')\<close> for a non-empty pattern: the matches are
  found from left to right, without overlap, and removed.
\<close>

function remove_all :: "string \<Rightarrow> string \<Rightarrow> string" where
  "remove_all pat s =
     (if s = [] \<or> pat = [] then s
      else if take (length pat) s = pat then remove_all pat (drop (length pat) s)
      else hd s # remove_all pat (tl s))"
  by pat_completeness auto
termination
  by (relation "measure (\<lambda>(pat, s). length s)") auto

declare remove_all.simps [simp del]

text \<open>\<^verbatim>\<open>.replaceAll('\n<pre>', '').replaceAll('\n</pre>', '')\<close> (main.js, line 214).\<close>

definition strip_markers :: "string \<Rightarrow> string" where
  "strip_markers s = remove_all ([CHR 0x0A] @ ''</pre>'') (remove_all ([CHR 0x0A] @ ''<pre>'') s)"

definition commitMessage_of :: "string list \<Rightarrow> string" where
  "commitMessage_of lines = strip_markers (join_with [CHR 0x0A] lines)"

definition telegramMessage_of :: "string list \<Rightarrow> string" where
  "telegramMessage_of lines = join_with [CHR 0x0A] (tl lines)"

text \<open>
  How \<^verbatim>\<open>main\<close> ends: by \<^verbatim>\<open>process.exit(code)\<close>, by returning, or by a rejection that
  \<^verbatim>\<open>main().catch(console.error)\<close> prints.
\<close>

datatype ending = Exited nat | Returned | Rejected string

text \<open>
  \<^verbatim>\<open>await fs.writeFile(name, text)\<close> as \<^verbatim>\<open>main\<close> and \<^verbatim>\<open>updateRevisions\<close> call it for
  their files in the working directory.
\<close>

definition write_report :: "int \<Rightarrow> string \<Rightarrow> string \<Rightarrow> world \<Rightarrow> world \<times> string option" where
  "write_report now name text w =
     (case fs_writeFile (cwd w) (tree w) now name text of
        (t, err) \<Rightarrow> (w\<lparr>tree := t, journal := journal w @ [WriteFile name text]\<rparr>, err))"

text \<open>Lines 171-218: everything \<^verbatim>\<open>main\<close> does with the results of the batches.\<close>

definition report :: "(string \<Rightarrow> 'k::linorder) \<Rightarrow> int \<Rightarrow> results list \<Rightarrow> world \<Rightarrow> world \<times> ending" where
  "report collate now rs w =
     (let st = aggregate rs;
          lines = report_lines collate now st
      in if length (changed st) = 0 \<and> length (failed st) = 0 then (w, Exited 0)
         else
           (case write_report now ''commit-message.txt'' (commitMessage_of lines) w of
              (w1, Some e) \<Rightarrow> (w1, Rejected e)
            | (w1, None) \<Rightarrow>
                (case write_report now ''telegram-message.txt'' (telegramMessage_of lines) w1 of
                   (w2, Some e) \<Rightarrow> (w2, Rejected e)
                 | (w2, None) \<Rightarrow> (w2, Returned))))"

text \<open>
  \<^verbatim>\<open>JSON.stringify(array, null, 2)\<close> for an array of strings: a string is quoted, with the
  quote, the backslash and the control characters escaped; the entries stand on lines of
  their own, indented by two spaces.
\<close>

definition json_escape :: "char \<Rightarrow> string" where
  "json_escape c =
     (if c = CHR 0x22 then [CHR 0x5C, CHR 0x22]
      else if c = CHR 0x5C then [CHR 0x5C, CHR 0x5C]
      else if c = CHR 0x08 then [CHR 0x5C, CHR ''b'']
      else if c = CHR 0x0C then [CHR 0x5C, CHR ''f'']
      else if c = CHR 0x0A then [CHR 0x5C, CHR ''n'']
      else if c = CHR 0x0D then [CHR 0x5C, CHR ''r'']
      else if c = CHR 0x09 then [CHR 0x5C, CHR ''t'']
      else if (of_char c :: nat) < 32 then
        [CHR 0x5C] @ ''u00'' @ [''0123456789abcdef'' ! (of_char c div 16), ''0123456789abcdef'' ! (of_char c mod 16)]
      else [c])"

definition json_quote :: "string \<Rightarrow> string" where
  "json_quote x = [CHR 0x22] @ concat (map json_escape x) @ [CHR 0x22]"

definition json_stringify :: "string list \<Rightarrow> string" where
  "json_stringify xs =
     (if xs = [] then ''[]''
      else ''['' @ [CHR 0x0A] @ ''  '' @ join_with ('','' @ [CHR 0x0A] @ ''  '') (map json_quote xs)
           @ [CHR 0x0A] @ '']'')"

text \<open>
  \<^verbatim>\<open>updateRevisions()\<close> (main.js, lines 53-70). The result is the world after the call
  and the message of the error, if one was thrown: nothing in the function catches. A
  status outside 200..299 is logged and the function returns. \<^verbatim>\<open>Object.keys\<close> throws
  for a field that is missing; \<^verbatim>\<open>toSorted()\<close> orders the keys as strings, which for
  the ASCII names of a manifest is the order of their bytes.
\<close>

definition updateRevisions :: "int \<Rightarrow> (string \<Rightarrow> fetched) \<Rightarrow> world \<Rightarrow> world \<times> string option" where
  "updateRevisions now net w =
     (case net (''https://'' @ HOST @ ''/js/revisions.json'') of
        FetchThrows msg \<Rightarrow> (w, Some msg)
      | Response st b \<Rightarrow>
          if \<not> response_ok st then (w, None)
          else (case b of
                  JsonThrows msg \<Rightarrow> (w, Some msg)
                | JsonNull \<Rightarrow>
                    (w, Some (''Cannot read properties of null (reading '' @ quoted ''js'' @ '')''))
                | JsonDoc res \<Rightarrow>
                    (case (js res, css res) of
                       (Some jsPaths, Some cssPaths) \<Rightarrow>
                         write_report now ''revisions.json'' (json_stringify (sort (jsPaths @ cssPaths))) w
                     | _ \<Rightarrow> (w, Some ''Cannot convert undefined or null to object''))))"

text \<open>
  \<^verbatim>\<open>main\<close> (main.js, lines 160-219). \<open>links\<close> is the parsed \<open>links.json\<close>. An error
  thrown by \<^verbatim>\<open>updateRevisions\<close> rejects \<^verbatim>\<open>main\<close> before any job is started; the
  list of outcomes is then empty.
\<close>

definition main ::
  "(string \<Rightarrow> 'h) \<Rightarrow> (string \<Rightarrow> 'k::linorder) \<Rightarrow> int \<Rightarrow> (string \<Rightarrow> fetched) \<Rightarrow> (nat \<Rightarrow> nat) \<Rightarrow> string list \<Rightarrow> world
    \<Rightarrow> (results list \<times> world \<times> ending) option" where
  "main H collate now net finish links w =
     (case updateRevisions now net w of
        (w0, Some msg) \<Rightarrow> Some ([], w0, Rejected msg)
      | (w0, None) \<Rightarrow>
          (let sourcemapLinks = map (\<lambda>link. ''https://'' @ HOST @ link @ ''.map'') links
           in case processInBatches sourcemapLinks CONCURRENCY (downloadAndExtractSourcemap H now net) finish w0 of
                None \<Rightarrow> None
              | Some (rs, w1, tr) \<Rightarrow> (case report collate now rs w1 of (w2, e) \<Rightarrow> Some (rs, w2, e))))"


section \<open>Example inputs\<close>

text \<open>
  The MD5 digests of the two contents that the examples below hash; nothing else is
  hashed there.
\<close>

definition md5_known :: "string \<Rightarrow> string" where
  "md5_known c =
     (if c = ''const x=1;'' then ''a01637c1f7430d9d572cb79abc195074''
      else if c = ''const x=2;'' then ''e965c030399c657eac664ea9f9d95545''
      else [])"

text \<open>The working directory of the examples is \<open>/home/runner/spaces-tracker\<close>.\<close>

definition example_cwd :: "string list" where
  "example_cwd = [''home'', ''runner'', ''spaces-tracker'']"

definition empty_world :: world where
  "empty_world = \<lparr>tree = Map.empty, journal = [], cwd = example_cwd\<rparr>"

text \<open>A job for the examples: it returns its item with a mark and appends the item to the state.\<close>

definition shout :: "string \<Rightarrow> string \<Rightarrow> string \<times> string" where
  "shout x s = (x @ ''!'', s @ x)"

text \<open>
  A network for the examples: what each URL delivers. Any URL not listed answers 404.
\<close>

definition example_net :: "string \<Rightarrow> fetched" where
  "example_net u =
     (if u = ''https://spaces.im/foo.map'' then
        Response 200 (JsonDoc \<lparr>sources = Some [''webpack:///src/app.js''],
                               sourcesContent = Some [Some ''const x=1;''], js = None, css = None\<rparr>)
      else if u = ''https://spaces.im/dup.map'' then
        Response 200 (JsonDoc \<lparr>sources = Some [''webpack:///src/app.js'', ''webpack:///src/app.js''],
                               sourcesContent = Some [Some ''const x=1;'', Some ''const x=2;''], js = None, css = None\<rparr>)
      else if u = ''https://spaces.im/clash.map'' then
        Response 200 (JsonDoc \<lparr>sources = Some [''webpack:///a'', ''webpack:///a/b''],
                               sourcesContent = Some [Some ''const x=1;'', Some ''const x=2;''], js = None, css = None\<rparr>)
      else if u = ''https://spaces.im/reports.map'' then
        Response 200 (JsonDoc \<lparr>sources = Some [''webpack:///commit-message.txt/x.js''],
                               sourcesContent = Some [Some ''const x=1;''], js = None, css = None\<rparr>)
      else if u = ''https://spaces.im/nocontent.map'' then
        Response 200 (JsonDoc \<lparr>sources = Some [''webpack:///src/app.js''], sourcesContent = None, js = None, css = None\<rparr>)
      else if u = ''https://spaces.im/alias.map'' then
        Response 200 (JsonDoc \<lparr>sources = Some [''webpack:///src/app.js'', ''webpack:///../spaces-tracker/src/app.js''],
                               sourcesContent = Some [Some ''const x=1;'', Some ''const x=2;''], js = None, css = None\<rparr>)
      else if u = ''https://spaces.im/null.map'' then Response 200 JsonNull
      else if u = ''https://spaces.im/offline.map'' then FetchThrows ''fetch failed''
      else if u = ''https://spaces.im/html.map'' then Response 200 (JsonThrows ''Unexpected token < in JSON at position 0'')
      else Response 404 (JsonThrows ''Unexpected end of JSON input''))"

text \<open>
  Two more networks: one where the revision manifest arrives, one where every request
  throws.
\<close>

definition manifest_net :: "string \<Rightarrow> fetched" where
  "manifest_net u =
     (if u = ''https://spaces.im/js/revisions.json'' then
        Response 200 (JsonDoc \<lparr>sources = None, sourcesContent = None,
                               js = Some [''/js/b.js'', ''/js/a.js''], css = Some [''/css/main.css'']\<rparr>)
      else example_net u)"

definition offline_net :: "string \<Rightarrow> fetched" where
  "offline_net u = FetchThrows ''fetch failed''"

text \<open>
  Two mirrors for the examples: one that holds \<open>src/app.js\<close> with the content the
  sourcemap of \<open>foo.map\<close> carries, one that holds it with another content.
\<close>

definition mirrored_world :: world where
  "mirrored_world = \<lparr>tree = [''src'' \<mapsto> Dir, ''src/app.js'' \<mapsto> File ''const x=1;'' 1000], journal = [],
                     cwd = example_cwd\<rparr>"

definition stale_world :: world where
  "stale_world = \<lparr>tree = [''src'' \<mapsto> Dir, ''src/app.js'' \<mapsto> File ''const x=2;'' 1000], journal = [],
                  cwd = example_cwd\<rparr>"



text \<open>
  A collation for the examples, which order at most one path: the path itself, compared
  byte by byte. And a ranking under which the jobs of a batch finish in the order in
  which they were started.
\<close>

definition byte_order :: "string \<Rightarrow> string" where
  "byte_order p = p"

definition as_started :: "nat \<Rightarrow> nat" where
  "as_started j = 0"

text \<open>
  Three runs of \<open>main\<close> over an empty working directory, each with a single link.
\<close>

definition foo_run :: "(results list \<times> world \<times> ending) option" where
  "foo_run = main md5_known byte_order 2000 example_net as_started [''/foo''] empty_world"

definition missing_run :: "(results list \<times> world \<times> ending) option" where
  "missing_run = main md5_known byte_order 2000 example_net as_started [''/missing''] empty_world"

definition reports_run :: "(results list \<times> world \<times> ending) option" where
  "reports_run = main md5_known byte_order 2000 example_net as_started [''/reports''] empty_world"


section \<open>Resolved paths\<close>

lemma common_prefix_append: "common_prefix base (base @ ys) = base"
  by (induction base) simp_all

lemma relative_to_below: "relative_to base (base @ ys) = ys"
  by (simp add: relative_to_def common_prefix_append)

text \<open>A plain name is the canonical path of the entry of that name in the working directory.\<close>

lemma resolve_name:
  assumes "split_slash p = [p]" "p \<noteq> []" "p \<noteq> ''.''" "p \<noteq> ''..''"
    "hd p \<noteq> CHR ''/''" "last p \<noteq> CHR ''/''"
  shows "resolve base p = p"
  using assms relative_to_below[of base "[p]"] by (simp add: resolve_def Let_def)

lemma resolve_dot: "resolve base ''.'' = ''.''"
  using relative_to_below[of base "[]"] by (simp add: resolve_def Let_def)

lemma resolve_commit: "resolve base ''commit-message.txt'' = ''commit-message.txt''"
  by (rule resolve_name) simp_all

lemma resolve_telegram: "resolve base ''telegram-message.txt'' = ''telegram-message.txt''"
  by (rule resolve_name) simp_all

lemma resolve_revisions: "resolve base ''revisions.json'' = ''revisions.json''"
  by (rule resolve_name) simp_all

lemma resolve_src: "resolve base ''src'' = ''src''"
  by (rule resolve_name) simp_all

lemma resolve_app: "resolve example_cwd ''src/app.js'' = ''src/app.js''"
  by code_simp

lemma resolve_alias: "resolve example_cwd ''../spaces-tracker/src/app.js'' = ''src/app.js''"
  by code_simp

section \<open>Paths of extracted sources\<close>

lemma cleanPath_match:
  assumes "scheme \<noteq> []" "\<forall>c\<in>set scheme. is_lower c"
  shows "cleanPath (scheme @ '':///'' @ rest) = rest"
proof -
  have colon: "\<not> is_lower CHR '':''" by (simp add: is_lower_def)
  have "takeWhile is_lower (scheme @ '':///'' @ rest) = scheme"
    using assms colon by (simp add: takeWhile_append2)
  moreover have "dropWhile is_lower (scheme @ '':///'' @ rest) = '':///'' @ rest"
    using assms colon by (simp add: dropWhile_append2)
  ultimately show ?thesis using assms by (simp add: cleanPath_def)
qed

lemma cleanPath_no_match:
  assumes "\<nexists>scheme rest. scheme \<noteq> [] \<and> (\<forall>c\<in>set scheme. is_lower c) \<and> p = scheme @ '':///'' @ rest"
  shows "cleanPath p = p"
proof (rule ccontr)
  assume changed: "cleanPath p \<noteq> p"
  let ?s = "takeWhile is_lower p" and ?r = "dropWhile is_lower p"
  from changed have s: "?s \<noteq> []" and r: "take 4 ?r = '':///''"
    by (auto simp: cleanPath_def Let_def split: if_splits)
  have "?r = take 4 ?r @ drop 4 ?r" by simp
  with r have "?r = '':///'' @ drop 4 ?r" by simp
  then have "p = ?s @ '':///'' @ drop 4 ?r"
    by (metis takeWhile_dropWhile_id)
  moreover have "\<forall>c\<in>set ?s. is_lower c" by (auto dest: set_takeWhileD)
  ultimately show False using assms s by blast
qed

lemma two_slashes_no_match:
  "\<nexists>scheme rest. scheme \<noteq> [] \<and> (\<forall>c\<in>set scheme. is_lower c)
      \<and> ''http://example.com/a.js'' = scheme @ '':///'' @ rest"
proof
  assume "\<exists>scheme rest. scheme \<noteq> [] \<and> (\<forall>c\<in>set scheme. is_lower c)
      \<and> ''http://example.com/a.js'' = scheme @ '':///'' @ rest"
  then obtain scheme rest where a: "scheme \<noteq> []" "\<forall>c\<in>set scheme. is_lower c"
    and e: "''http://example.com/a.js'' = scheme @ '':///'' @ rest" by blast
  from cleanPath_match[OF a, of rest] e have "cleanPath ''http://example.com/a.js'' = rest" by simp
  moreover have "cleanPath ''http://example.com/a.js'' = ''http://example.com/a.js''"
    by (simp add: cleanPath_def is_lower_def)
  ultimately have "''http://example.com/a.js'' = rest" by simp
  with e have "length rest = length (scheme @ '':///'' @ rest)" by simp
  then show False by simp
qed

lemma extract_entry_path:
  "extract_entry H now sourcePath sourceContent w = (w', Inr f)
    \<Longrightarrow> path f = path_join [''.'', cleanPath sourcePath]"
  by (auto simp: extract_entry_def write_changed_def Let_def
      split: if_splits sum.splits prod.splits option.splits)

text \<open>The scenario of one new source file in an empty mirror, step by step.\<close>

lemma clean_app: "cleanPath ''webpack:///src/app.js'' = ''src/app.js''" by code_simp
lemma join_app: "path_join [''.'', ''src/app.js''] = ''src/app.js''" by code_simp
lemma dirname_app: "path_dirname ''src/app.js'' = ''src''" by code_simp
lemma lookup_empty_app: "lookup Map.empty ''src/app.js'' = None" 
  by (simp add: lookup_def strip_slash_def)
lemma mkdir_src: "fs_mkdir base Map.empty ''src'' = ([''src'' \<mapsto> Dir], None)"
  by (simp add: fs_mkdir_def strip_slash_def lookup_def resolve_src)
lemma write_app:
  "fs_writeFile example_cwd [''src'' \<mapsto> Dir] now ''src/app.js'' c
     = ([''src'' \<mapsto> Dir, ''src/app.js'' \<mapsto> File c now], None)"
  by (simp add: fs_writeFile_def dirname_app lookup_def strip_slash_def resolve_src resolve_app)
lemma scenario_entry:
  "extract_entry H now ''webpack:///src/app.js'' ''const x=1;'' empty_world =
     (\<lparr>tree = [''src'' \<mapsto> Dir, ''src/app.js'' \<mapsto> File ''const x=1;'' now],
       journal = [Mkdir ''src'', WriteFile ''src/app.js'' ''const x=1;''],
       cwd = example_cwd\<rparr>,
      Inr \<lparr>path = ''src/app.js'', isChanged = True, previousModified = None\<rparr>)"
  by (simp add: extract_entry_def clean_app join_app fileExists_def fs_access_def lookup_empty_app
      write_changed_def dirname_app empty_world_def mkdir_src write_app resolve_app Let_def)
text \<open>
  C1, as stated, fails: a scheme followed by two slashes only is not stripped, so for
  \<open>http://example.com/a.js\<close> the clean path is the whole string, not \<open>example.com/a.js\<close>;
  and where three slashes follow, all three go, so for \<open>webpack:///src/app.js\<close> the clean
  path is \<open>src/app.js\<close>, not what follows \<open>://\<close>.
\<close>

theorem cleanPath_two_slashes_counterexample:
  "cleanPath (''http'' @ ''://'' @ ''example.com/a.js'') \<noteq> ''example.com/a.js''
   \<and> cleanPath (''webpack'' @ ''://'' @ ''/src/app.js'') \<noteq> ''/src/app.js''"
  by (simp add: cleanPath_def is_lower_def)

text \<open>
  C1, amended: the prefix that is stripped is a non-empty run of lower-case letters
  followed by a colon and three slashes. For every string \<open><scheme>:///<rest>\<close> the
  clean path is \<open><rest>\<close>; a string with no such prefix is its own clean path; and
  the path of every outcome an entry emits is \<open>path.join('.', cleanPath)\<close>.
\<close>

theorem cleanPath_strips_scheme_and_three_slashes:
  "(scheme \<noteq> [] \<and> (\<forall>c\<in>set scheme. is_lower c) \<longrightarrow> cleanPath (scheme @ '':///'' @ rest) = rest)
   \<and> ((\<nexists>s r. s \<noteq> [] \<and> (\<forall>c\<in>set s. is_lower c) \<and> p = s @ '':///'' @ r) \<longrightarrow> cleanPath p = p)
   \<and> (extract_entry H now sourcePath sourceContent w = (w', Inr f)
        \<longrightarrow> path f = path_join [''.'', cleanPath sourcePath])"
  using cleanPath_match[of scheme rest] cleanPath_no_match[of p]
    extract_entry_path[of H now sourcePath sourceContent w w' f]
  by blast

theorem cleanPath_strips_scheme_and_three_slashes_witness:
  "cleanPath ''webpack:///src/app.js'' = ''src/app.js''
   \<and> cleanPath ''http://example.com/a.js'' = ''http://example.com/a.js''
   \<and> path (projr (snd (extract_entry md5_known 0 ''webpack:///src/app.js'' ''const x=1;'' empty_world)))
       = path_join [''.'', cleanPath ''webpack:///src/app.js'']"
proof -
  let ?r = "extract_entry md5_known 0 ''webpack:///src/app.js'' ''const x=1;'' empty_world"
  have run: "?r = (fst ?r, Inr (projr (snd ?r)))"
    by (simp add: scenario_entry)
  have lower: "''webpack'' \<noteq> [] \<and> (\<forall>c\<in>set ''webpack''. is_lower c)"
    by (simp add: is_lower_def)
  note t = cleanPath_strips_scheme_and_three_slashes[where scheme = "''webpack''"
      and rest = "''src/app.js''" and p = "''http://example.com/a.js''" and H = md5_known
      and now = 0 and sourcePath = "''webpack:///src/app.js''" and sourceContent = "''const x=1;''"
      and w = empty_world and w' = "fst ?r" and f = "projr (snd ?r)"]
  from t lower have "cleanPath (''webpack'' @ '':///'' @ ''src/app.js'') = ''src/app.js''"
    by blast
  then have a: "cleanPath ''webpack:///src/app.js'' = ''src/app.js''" by simp
  from t two_slashes_no_match have b: "cleanPath ''http://example.com/a.js'' = ''http://example.com/a.js''"
    by blast
  from t run have c: "path (projr (snd ?r)) = path_join [''.'', cleanPath ''webpack:///src/app.js'']"
    by blast
  from a b c show ?thesis by blast
qed
section \<open>Batches run in order\<close>

lemma insort_key_map: "insort_key f (g x) (map g ys) = map g (insort_key (\<lambda>a. f (g a)) x ys)"
  by (induction ys) auto

lemma sort_key_map: "sort_key f (map g xs) = map g (sort_key (\<lambda>a. f (g a)) xs)"
  by (induction xs) (auto simp: insort_key_map)

lemma settle_fst: "map fst (fst (settle p jxs s)) = map fst jxs"
  by (induction jxs arbitrary: s) (simp_all add: case_prod_beta)

lemma settle_outcome:
  "e \<in> set (fst (settle p jxs s)) \<Longrightarrow> \<exists>x s0. (fst e, x) \<in> set jxs \<and> snd e = fst (p x s0)"
proof (induction jxs arbitrary: s)
  case Nil
  then show ?case by simp
next
  case (Cons jx jxs)
  obtain r s1 where p: "p (snd jx) s = (r, s1)" by (cases "p (snd jx) s")
  obtain rs s2 where st: "settle p jxs s1 = (rs, s2)" by (cases "settle p jxs s1")
  from Cons.prems p st have "e = (fst jx, r) \<or> e \<in> set rs" by simp
  then show ?case
  proof
    assume "e = (fst jx, r)"
    with p have "(fst e, snd jx) \<in> set (jx # jxs) \<and> snd e = fst (p (snd jx) s)" by simp
    then show ?thesis by blast
  next
    assume "e \<in> set rs"
    with st have "e \<in> set (fst (settle p jxs s1))" by simp
    from Cons.IH[OF this] show ?thesis by auto
  qed
qed

lemma promise_all_events:
  assumes "promise_all p finish i batch s = (rs, s', ev)"
  shows "ev = map Started [i ..< i + length batch] @ map Finished (sort_key finish [i ..< i + length batch])"
proof -
  let ?idx = "[i ..< i + length batch]"
  let ?jobs = "zip ?idx batch"
  have fst_jobs: "map fst ?jobs = ?idx" by (simp add: map_fst_zip)
  have "map fst (sort_key (\<lambda>jx. finish (fst jx)) ?jobs) = sort_key finish (map fst ?jobs)"
    by (rule sort_key_map[symmetric])
  with fst_jobs have c: "map fst (sort_key (\<lambda>jx. finish (fst jx)) ?jobs) = sort_key finish ?idx" by simp
  have a: "map (\<lambda>jx. Started (fst jx)) ?jobs = map Started (map fst ?jobs)"
    by (simp only: map_map comp_def)
  have b: "map (\<lambda>jx. Finished (fst jx)) (sort_key (\<lambda>jx. finish (fst jx)) ?jobs)
      = map Finished (map fst (sort_key (\<lambda>jx. finish (fst jx)) ?jobs))"
    by (simp only: map_map comp_def)
  from assms have "ev = map (\<lambda>jx. Started (fst jx)) ?jobs
      @ map (\<lambda>jx. Finished (fst jx)) (sort_key (\<lambda>jx. finish (fst jx)) ?jobs)"
    by (auto simp: promise_all_def Let_def split: prod.splits)
  then show ?thesis unfolding a b c fst_jobs .
qed

lemma promise_all_results:
  assumes "promise_all p finish i batch s = (rs, s', ev)"
  shows "length rs = length batch \<and> (\<forall>k<length batch. \<exists>s0. rs ! k = fst (p (batch ! k) s0))"
proof -
  let ?idx = "[i ..< i + length batch]"
  let ?jobs = "zip ?idx batch"
  let ?completion = "sort_key (\<lambda>jx. finish (fst jx)) ?jobs"
  obtain dn s1 where st: "settle p ?completion s = (dn, s1)" by (cases "settle p ?completion s")
  with assms have rs: "rs = map snd (sort_key fst dn)"
    by (auto simp: promise_all_def Let_def)
  have fst_jobs: "map fst ?jobs = ?idx" by (simp add: map_fst_zip)
  have "map fst ?completion = sort_key finish (map fst ?jobs)"
    by (rule sort_key_map[symmetric])
  with fst_jobs have fst_completion: "map fst ?completion = sort_key finish ?idx" by simp
  from settle_fst[of p ?completion s] st have fst_dn: "map fst dn = sort_key finish ?idx"
    by (simp add: fst_completion)
  have "map fst (sort_key fst dn) = sort (map fst dn)"
    by (rule sort_key_map[symmetric])
  then have sorted_keys: "map fst (sort_key fst dn) = sort (sort_key finish ?idx)"
    by (simp only: fst_dn)
  have "sort (sort_key finish ?idx) = ?idx"
    by (rule sorted_distinct_set_unique) simp_all
  with sorted_keys have keys: "map fst (sort_key fst dn) = ?idx" by simp
  then have len: "length (sort_key fst dn) = length batch"
    by (metis length_map length_upt add_diff_cancel_left')
  have each: "\<exists>s0. rs ! k = fst (p (batch ! k) s0)" if k: "k < length batch" for k
  proof -
    let ?e = "sort_key fst dn ! k"
    from k len have kk: "k < length (sort_key fst dn)" by simp
    then have "fst ?e = map fst (sort_key fst dn) ! k" by simp
    with keys k have fe: "fst ?e = i + k" by simp
    from kk have "?e \<in> set (sort_key fst dn)" by (rule nth_mem)
    then have "?e \<in> set (fst (settle p ?completion s))" using st by simp
    from settle_outcome[OF this] obtain x s0 where x: "(fst ?e, x) \<in> set ?completion"
      and r: "snd ?e = fst (p x s0)" by blast
    from x fe have "(i + k, x) \<in> set ?jobs" by simp
    then obtain n where n: "n < length batch" "?idx ! n = i + k" "batch ! n = x"
      by (auto simp: in_set_zip)
    then have "n = k" by simp
    with n have "x = batch ! k" by simp
    with r kk rs show ?thesis by auto
  qed
  from len rs each show ?thesis by simp
qed

lemma chunk_count: "0 < bs \<Longrightarrow> (c * bs < n) = (c < (n + bs - 1) div bs)" for bs :: nat
proof -
  assume bs: "0 < bs"
  have "(c < (n + bs - 1) div bs) = (Suc c \<le> (n + bs - 1) div bs)" by auto
  also have "\<dots> = (Suc c * bs \<le> n + bs - 1)"
    using bs by (simp only: less_eq_div_iff_mult_less_eq)
  also have "\<dots> = (c * bs < n)" using bs by auto
  finally show ?thesis by simp
qed

lemma batches_loop_closed:
  assumes bs: "0 < bs"
  shows "\<exists>res s'. batches_loop items bs p finish (c * bs) acc s tr
            = Some (acc @ res, s',
                tr @ concat (map (chunk_events finish (length items) bs) [c ..< (length items + bs - 1) div bs]))
          \<and> length res = length items - c * bs
          \<and> (\<forall>k < length res. \<exists>s0. res ! k = fst (p (items ! (c * bs + k)) s0))"
proof (induction "(length items + bs - 1) div bs - c" arbitrary: c acc s tr)
  case 0
  then have "\<not> c < (length items + bs - 1) div bs" by simp
  with chunk_count[OF bs, of c "length items"] have stop: "\<not> c * bs < length items" by simp
  then have loop: "batches_loop items bs p finish (c * bs) acc s tr = Some (acc, s, tr)"
    by (subst batches_loop.simps) simp
  from 0 have none: "[c ..< (length items + bs - 1) div bs] = []" by simp
  have "batches_loop items bs p finish (c * bs) acc s tr
      = Some (acc @ [], s,
          tr @ concat (map (chunk_events finish (length items) bs) [c ..< (length items + bs - 1) div bs]))"
    unfolding none loop by simp
  moreover have "length ([] :: 'c list) = length items - c * bs" using stop by simp
  ultimately show ?case
    by (intro exI[of _ "[]"] exI[of _ s] conjI) simp_all
next
  case (Suc m)
  let ?n = "length items"
  let ?N = "(?n + bs - 1) div bs"
  let ?batch = "take bs (drop (c * bs) items)"
  from Suc.hyps(2) have cN: "c < ?N" by simp
  with chunk_count[OF bs, of c ?n] have more: "c * bs < ?n" by simp
  obtain rs s1 ev where pa: "promise_all p finish (c * bs) ?batch s = (rs, s1, ev)"
    by (cases "promise_all p finish (c * bs) ?batch s") auto
  have lenb: "length ?batch = min bs (?n - c * bs)" by simp
  have hi: "c * bs + length ?batch = min (c * bs + bs) ?n" using more by auto
  from promise_all_events[OF pa] hi
  have ev: "ev = map Started [c * bs ..< min (c * bs + bs) ?n]
      @ map Finished (sort_key finish [c * bs ..< min (c * bs + bs) ?n])" by simp
  from promise_all_results[OF pa]
  have lrs: "length rs = length ?batch"
    and ers: "\<forall>k<length ?batch. \<exists>s0. rs ! k = fst (p (?batch ! k) s0)" by auto
  let ?tr1 = "tr @ ev @ [Progress (min (c * bs + bs) ?n) ?n]"
  have step: "batches_loop items bs p finish (c * bs) acc s tr
      = batches_loop items bs p finish (Suc c * bs) (acc @ rs) s1 ?tr1"
    using more pa by (subst batches_loop.simps) (simp add: add.commute)
  from Suc.hyps(2) have "m = ?N - Suc c" by simp
  from Suc.hyps(1)[OF this, of "acc @ rs" s1 ?tr1]
  obtain res' s' where
    run: "batches_loop items bs p finish (Suc c * bs) (acc @ rs) s1 ?tr1
        = Some ((acc @ rs) @ res', s',
            ?tr1 @ concat (map (chunk_events finish ?n bs) [Suc c ..< ?N]))"
    and lres': "length res' = ?n - Suc c * bs"
    and eres': "\<forall>k < length res'. \<exists>s0. res' ! k = fst (p (items ! (Suc c * bs + k)) s0)"
    by blast
  have ce: "chunk_events finish ?n bs c = ev @ [Progress (min (c * bs + bs) ?n) ?n]"
    by (simp add: chunk_events_def Let_def ev)
  from cN have upt: "[c ..< ?N] = c # [Suc c ..< ?N]" by (simp add: upt_conv_Cons)
  have tr_eq: "?tr1 @ concat (map (chunk_events finish ?n bs) [Suc c ..< ?N])
      = tr @ concat (map (chunk_events finish ?n bs) [c ..< ?N])"
    unfolding upt by (simp add: ce)
  have arith: "min bs (n - x) + (n - (bs + x)) = n - x" if "x < n" for n x :: nat
    using that by arith
  have len: "length (rs @ res') = ?n - c * bs"
    using lrs lres' lenb arith[OF more] by (simp add: add.commute)
  have each: "\<exists>s0. (rs @ res') ! k = fst (p (items ! (c * bs + k)) s0)" if k: "k < length (rs @ res')" for k
  proof (cases "k < length rs")
    case True
    with lrs ers obtain s0 where "rs ! k = fst (p (?batch ! k) s0)" by auto
    moreover from True lrs more have "?batch ! k = items ! (c * bs + k)" by simp
    ultimately show ?thesis using True by (auto simp: nth_append)
  next
    case False
    with k have k': "k - length rs < length res'" by auto
    with eres' obtain s0 where r: "res' ! (k - length rs) = fst (p (items ! (Suc c * bs + (k - length rs))) s0)"
      by blast
    from k' lres' have "Suc c * bs < ?n" by simp
    then have "length rs = bs" using lrs lenb by simp
    with False have "Suc c * bs + (k - length rs) = c * bs + k" by simp
    with r False show ?thesis by (auto simp: nth_append)
  qed
  from step run tr_eq len each show ?case
    by (intro exI[of _ "rs @ res'"] exI[of _ s']) simp
qed

lemma processInBatches_closed:
  assumes "0 < bs"
  shows "\<exists>res s'. processInBatches items bs p finish s
            = Some (res, s', concat (map (chunk_events finish (length items) bs) [0 ..< (length items + bs - 1) div bs]))
          \<and> length res = length items
          \<and> (\<forall>k < length items. \<exists>s0. res ! k = fst (p (items ! k) s0))"
proof -
  from batches_loop_closed[OF assms, of items p finish 0 "[]" s "[]"]
  obtain res s' where
    run: "batches_loop items bs p finish 0 [] s []
        = Some (res, s', concat (map (chunk_events finish (length items) bs) [0 ..< (length items + bs - 1) div bs]))"
    and len: "length res = length items"
    and each: "\<forall>k < length res. \<exists>s0. res ! k = fst (p (items ! k) s0)"
    by auto
  from run len each show ?thesis
    by (intro exI[of _ res] exI[of _ s']) (simp add: processInBatches_def)
qed

lemma started_in_chunk:
  "Started k \<in> set (chunk_events finish n bs c) \<Longrightarrow> c * bs \<le> k \<and> k < c * bs + bs"
  by (auto simp: chunk_events_def Let_def)

lemma finished_in_chunk:
  assumes "0 < bs" "j < n"
  shows "Finished j \<in> set (chunk_events finish n bs (j div bs))"
proof -
  have "j div bs * bs \<le> j" by simp
  moreover have "j < j div bs * bs + bs"
    using assms(1) by (metis add.commute dividend_less_div_times mult.commute)
  ultimately have "j \<in> set [j div bs * bs ..< min (j div bs * bs + bs) n]"
    using assms(2) by simp
  then show ?thesis by (simp add: chunk_events_def Let_def)
qed

lemma chunk_of_started:
  assumes "0 < bs" "Started k \<in> set (chunk_events finish n bs c)"
  shows "c = k div bs"
proof -
  from started_in_chunk[OF assms(2)] have "c * bs \<le> k" "k < c * bs + bs" by auto
  then have "c \<le> k div bs" "k div bs < Suc c"
    using assms(1) by (simp_all add: less_eq_div_iff_mult_less_eq div_less_iff_less_mult)
  then show ?thesis by simp
qed

lemma finished_before_started:
  assumes bs: "0 < bs" and j: "j < n" and jk: "j div bs < k div bs"
    and tr: "concat (map (chunk_events finish n bs) [0 ..< N]) = pre @ Started k # post"
  shows "Finished j \<in> set pre"
proof -
  let ?E = "chunk_events finish n bs"
  have "Started k \<in> set (concat (map ?E [0 ..< N]))" unfolding tr by simp
  then obtain c where c: "c < N" "Started k \<in> set (?E c)" by auto
  with chunk_of_started[OF bs] have ck: "k div bs < N" by blast
  let ?A = "concat (map ?E [0 ..< k div bs])" and ?B = "concat (map ?E [k div bs ..< N])"
  from ck have "[0 ..< N] = [0 ..< k div bs] @ [k div bs ..< N]"
    by (metis le_add_diff_inverse less_imp_le_nat upt_add_eq_append zero_le)
  then have split: "concat (map ?E [0 ..< N]) = ?A @ ?B" by simp
  have notA: "Started k \<notin> set ?A"
  proof
    assume "Started k \<in> set ?A"
    then obtain c' where "c' < k div bs" "Started k \<in> set (?E c')" by auto
    with chunk_of_started[OF bs] show False by blast
  qed
  have inA: "Finished j \<in> set ?A"
    using finished_in_chunk[OF bs j, of finish] jk by auto
  from tr split have "?A @ ?B = pre @ Started k # post" by simp
  then obtain us where "(?A = pre @ us \<and> us @ ?B = Started k # post)
      \<or> (?A @ us = pre \<and> ?B = us @ Started k # post)"
    by (auto simp: append_eq_append_conv2)
  then show ?thesis
  proof
    assume a: "?A = pre @ us \<and> us @ ?B = Started k # post"
    show ?thesis
    proof (cases us)
      case Nil
      with a inA show ?thesis by simp
    next
      case (Cons u us')
      with a have "u = Started k" by simp
      with a Cons have "Started k \<in> set ?A" by simp
      with notA show ?thesis by simp
    qed
  next
    assume "?A @ us = pre \<and> ?B = us @ Started k # post"
    then have "set ?A \<subseteq> set pre" by (metis set_append Un_upper1)
    with inA show ?thesis by blast
  qed
qed

lemma five_by_two:
  "processInBatches [''a'', ''b'', ''c'', ''d'', ''e''] 2 shout (\<lambda>j. 5 - j) [] =
     Some ([''a!'', ''b!'', ''c!'', ''d!'', ''e!''], ''badce'',
       [Started 0, Started 1, Finished 1, Finished 0, Progress 2 5,
        Started 2, Started 3, Finished 3, Finished 2, Progress 4 5,
        Started 4, Finished 4, Progress 5 5])"
  by code_simp

text \<open>
  C5: for a positive \<open>batchSize\<close>, \<open>processInBatches\<close> returns. The batches are the
  consecutive ranges of at most \<open>batchSize\<close> indices given by \<open>chunk_events\<close>; whenever a
  job is started, every job of every earlier batch has finished; the result has one entry
  per item, entry \<open>j\<close> being what the job returned for \<open>items[j]\<close>, whatever the order
  \<open>finish\<close> in which the jobs of a batch complete.
\<close>

theorem processInBatches_chunks_in_order:
  assumes "0 < batchSize"
  shows "\<exists>rs s' tr. processInBatches items batchSize processor finish s = Some (rs, s', tr)
     \<and> length rs = length items
     \<and> (\<forall>j < length items. \<exists>s0. rs ! j = fst (processor (items ! j) s0))
     \<and> tr = concat (map (chunk_events finish (length items) batchSize)
                  [0 ..< (length items + batchSize - 1) div batchSize])
     \<and> (\<forall>j k pre post. j < length items \<and> k < length items \<and> j div batchSize < k div batchSize
            \<and> tr = pre @ Started k # post \<longrightarrow> Finished j \<in> set pre)"
proof -
  let ?tr = "concat (map (chunk_events finish (length items) batchSize)
                  [0 ..< (length items + batchSize - 1) div batchSize])"
  from processInBatches_closed[OF assms, of items processor finish s]
  obtain rs s' where run: "processInBatches items batchSize processor finish s = Some (rs, s', ?tr)"
    and len: "length rs = length items"
    and each: "\<forall>k < length items. \<exists>s0. rs ! k = fst (processor (items ! k) s0)"
    by blast
  have order: "\<forall>j k pre post. j < length items \<and> k < length items \<and> j div batchSize < k div batchSize
            \<and> ?tr = pre @ Started k # post \<longrightarrow> Finished j \<in> set pre"
    using finished_before_started[OF assms] by blast
  from run len each order show ?thesis by blast
qed


theorem processInBatches_chunks_in_order_witness:
  "(0 :: nat) < 2
   \<and> processInBatches [''a'', ''b'', ''c'', ''d'', ''e''] 2 shout (\<lambda>j. 5 - j) [] =
       Some ([''a!'', ''b!'', ''c!'', ''d!'', ''e!''], ''badce'',
         [Started 0, Started 1, Finished 1, Finished 0, Progress 2 5] @ Started 2 #
         [Started 3, Finished 3, Finished 2, Progress 4 5, Started 4, Finished 4, Progress 5 5])
   \<and> (0 :: nat) div 2 < 2 div 2
   \<and> Finished 0 \<in> set [Started 0, Started 1, Finished 1, Finished 0, Progress 2 5]"
proof -
  let ?items = "[''a'', ''b'', ''c'', ''d'', ''e'']"
  let ?pre = "[Started 0, Started 1, Finished 1, Finished 0, Progress 2 5]"
  let ?post = "[Started 3, Finished 3, Finished 2, Progress 4 5, Started 4, Finished 4, Progress 5 5]"
  have pos: "(0 :: nat) < 2" by simp
  from processInBatches_chunks_in_order[OF pos, of ?items shout "\<lambda>j. 5 - j" "[]"]
  obtain rs s' tr where run: "processInBatches ?items 2 shout (\<lambda>j. 5 - j) [] = Some (rs, s', tr)"
    and order: "\<forall>j k pre post. j < length ?items \<and> k < length ?items \<and> j div 2 < k div 2
            \<and> tr = pre @ Started k # post \<longrightarrow> Finished j \<in> set pre"
    by blast
  from run five_by_two have tr: "tr = ?pre @ Started 2 # ?post" by simp
  have "(0 :: nat) < length ?items \<and> (2 :: nat) < length ?items \<and> (0 :: nat) div 2 < 2 div 2" by simp
  with order tr have "Finished 0 \<in> set ?pre" by blast
  with five_by_two show ?thesis by simp
qed

section \<open>Relative time phrases: the unit chosen\<close>









section \<open>Outcomes of the job\<close>

lemma job_url: "url (fst (downloadAndExtractSourcemap H now net u w)) = u"
  by (simp add: downloadAndExtractSourcemap_def Let_def
      split: fetched.splits body.splits option.splits prod.splits)

lemma job_success_iff:
  "success (fst (downloadAndExtractSourcemap H now net u w))
    = (error (fst (downloadAndExtractSourcemap H now net u w)) = None)"
  by (simp add: downloadAndExtractSourcemap_def Let_def
      split: fetched.splits body.splits option.splits prod.splits)

lemma job_http_error:
  "net u = Response st b \<Longrightarrow> \<not> response_ok st \<Longrightarrow>
   downloadAndExtractSourcemap H now net u w
     = (\<lparr>url = u, success = False, files = [], error = Some (''HTTP '' @ show_nat st)\<rparr>, w)"
  by (simp add: downloadAndExtractSourcemap_def Let_def)

lemma job_invalid_format:
  "net u = Response st (JsonDoc sm) \<Longrightarrow> response_ok st
   \<Longrightarrow> sources sm = None \<or> sourcesContent sm = None \<Longrightarrow>
   downloadAndExtractSourcemap H now net u w
     = (\<lparr>url = u, success = False, files = [], error = Some ''Invalid sourcemap format''\<rparr>, w)"
  by (auto simp: downloadAndExtractSourcemap_def Let_def split: option.splits)

lemma job_fetch_throws:
  "net u = FetchThrows msg \<Longrightarrow>
   downloadAndExtractSourcemap H now net u w
     = (\<lparr>url = u, success = False, files = [], error = Some msg\<rparr>, w)"
  by (simp add: downloadAndExtractSourcemap_def Let_def)

lemma job_json_throws:
  "net u = Response st (JsonThrows msg) \<Longrightarrow> response_ok st \<Longrightarrow>
   downloadAndExtractSourcemap H now net u w
     = (\<lparr>url = u, success = False, files = [], error = Some msg\<rparr>, w)"
  by (simp add: downloadAndExtractSourcemap_def Let_def)

lemma job_json_null:
  "net u = Response st JsonNull \<Longrightarrow> response_ok st \<Longrightarrow>
   downloadAndExtractSourcemap H now net u w
     = (\<lparr>url = u, success = False, files = [],
         error = Some (''Cannot read properties of null (reading '' @ quoted ''sources'' @ '')'')\<rparr>, w)"
  by (simp add: downloadAndExtractSourcemap_def Let_def)

lemma job_io_throws:
  "net u = Response st (JsonDoc sm) \<Longrightarrow> response_ok st
   \<Longrightarrow> sources sm = Some srcs \<Longrightarrow> sourcesContent sm = Some cs
   \<Longrightarrow> extract_loop H now srcs cs [] w = (Some msg, fs, w') \<Longrightarrow>
   downloadAndExtractSourcemap H now net u w
     = (\<lparr>url = u, success = False, files = fs, error = Some msg\<rparr>, w')"
  by (simp add: downloadAndExtractSourcemap_def Let_def)

lemma show_nat_404: "show_nat 404 = ''404''"
  by code_simp

lemma concurrency_positive: "0 < CONCURRENCY"
  by (simp add: CONCURRENCY_def)

text \<open>The batches of \<open>main\<close> return one outcome per link, each the outcome of the job for its URL.\<close>

lemma batches_of_main:
  "\<exists>rs w1 tr.
     processInBatches (map (\<lambda>link. ''https://'' @ HOST @ link @ ''.map'') links) CONCURRENCY
         (downloadAndExtractSourcemap H now net) finish w0 = Some (rs, w1, tr)
     \<and> length rs = length links
     \<and> (\<forall>j < length links. \<exists>s. rs ! j
           = fst (downloadAndExtractSourcemap H now net (''https://'' @ HOST @ links ! j @ ''.map'') s))
     \<and> map url rs = map (\<lambda>link. ''https://'' @ HOST @ link @ ''.map'') links"
proof -
  let ?urls = "map (\<lambda>link. ''https://'' @ HOST @ link @ ''.map'') links"
  let ?job = "downloadAndExtractSourcemap H now net"
  from processInBatches_closed[OF concurrency_positive, of ?urls ?job finish w0]
  obtain rs w1 tr where run: "processInBatches ?urls CONCURRENCY ?job finish w0 = Some (rs, w1, tr)"
    and len: "length rs = length ?urls"
    and each: "\<forall>k < length ?urls. \<exists>s0. rs ! k = fst (?job (?urls ! k) s0)"
    by blast
  have each': "\<forall>j < length links. \<exists>s. rs ! j = fst (?job (''https://'' @ HOST @ links ! j @ ''.map'') s)"
  proof (intro allI impI)
    fix j assume j: "j < length links"
    with each obtain s0 where "rs ! j = fst (?job (?urls ! j) s0)" by auto
    with j show "\<exists>s. rs ! j = fst (?job (''https://'' @ HOST @ links ! j @ ''.map'') s)" by auto
  qed
  have "map url rs = ?urls"
  proof (rule nth_equalityI)
    show "length (map url rs) = length ?urls" using len by simp
  next
    fix k assume "k < length (map url rs)"
    with len have k: "k < length ?urls" by simp
    with each obtain s0 where "rs ! k = fst (?job (?urls ! k) s0)" by blast
    then have "url (rs ! k) = ?urls ! k" by (simp add: job_url)
    with k len show "map url rs ! k = ?urls ! k" by simp
  qed
  with run len each' show ?thesis by simp
qed

lemma main_after_revisions:
  assumes "updateRevisions now net w = (w0, None)"
    and "processInBatches (map (\<lambda>link. ''https://'' @ HOST @ link @ ''.map'') links) CONCURRENCY
         (downloadAndExtractSourcemap H now net) finish w0 = Some (rs, w1, tr)"
  shows "main H collate now net finish links w
     = Some (rs, fst (report collate now rs w1), snd (report collate now rs w1))"
  using assms by (simp add: main_def Let_def case_prod_beta)

lemma main_revisions_throw:
  assumes "updateRevisions now net w = (w0, Some msg)"
  shows "main H collate now net finish links w = Some ([], w0, Rejected msg)"
  using assms by (simp add: main_def)

lemma write_changed_outcome:
  "write_changed now lp c prev w = (w1, Inr f)
    \<Longrightarrow> f = \<lparr>path = lp, isChanged = True, previousModified = prev\<rparr>"
  by (auto simp: write_changed_def Let_def split: prod.splits option.splits)

lemma readFile_Inr: "fs_readFile base t p = Inr c \<Longrightarrow> \<exists>m. lookup t (resolve base p) = Some (File c m)"
  by (auto simp: fs_readFile_def split: option.splits node.splits)

lemma stat_Inr: "fs_stat_mtime base t p = Inr m \<Longrightarrow> \<exists>c. lookup t (resolve base p) = Some (File c m)"
  by (auto simp: fs_stat_mtime_def split: option.splits node.splits)

lemma entry_path: "extract_entry H now sp c w0 = (w1, Inr f) \<Longrightarrow> path f = localPath_of sp"
  by (auto simp: extract_entry_def write_changed_def localPath_of_def Let_def
      split: if_splits sum.splits prod.splits option.splits)

lemma entry_previous:
  assumes "extract_entry H now sp c w0 = (w1, Inr f)" "previousModified f = Some m"
  shows "isChanged f
    \<and> (\<exists>c0. lookup (tree w0) (resolve (cwd w0) (path f)) = Some (File c0 m) \<and> H c0 \<noteq> H c)"
proof -
  let ?lp = "path_join [''.'', cleanPath sp]"
  show ?thesis
  proof (cases "fileExists (cwd w0) (tree w0) ?lp")
    case False
    with assms(1) have "write_changed now ?lp c None w0 = (w1, Inr f)"
      by (simp add: extract_entry_def Let_def)
    from write_changed_outcome[OF this] assms(2) show ?thesis by simp
  next
    case True
    show ?thesis
    proof (cases "fs_readFile (cwd w0) (tree w0) ?lp")
      case (Inl e)
      with True assms(1) show ?thesis by (simp add: extract_entry_def Let_def)
    next
      case (Inr existing)
      show ?thesis
      proof (cases "H c = H existing")
        case same: True
        with True Inr assms show ?thesis
          by (auto simp: extract_entry_def Let_def getFileHash_def)
      next
        case differ: False
        show ?thesis
        proof (cases "fs_stat_mtime (cwd w0) (tree w0) ?lp")
          case (Inl e)
          with True Inr differ assms(1) show ?thesis
            by (simp add: extract_entry_def Let_def getFileHash_def)
        next
          case stat: (Inr m')
          with True Inr differ assms(1)
          have "write_changed now ?lp c (Some m') w0 = (w1, Inr f)"
            by (simp add: extract_entry_def Let_def getFileHash_def)
          from write_changed_outcome[OF this] assms(2)
          have f: "path f = ?lp" "isChanged f" "m' = m" by simp_all
          from readFile_Inr[OF Inr] stat_Inr[OF stat] f(3)
          have "lookup (tree w0) (resolve (cwd w0) ?lp) = Some (File existing m)" by auto
          with f differ show ?thesis by auto
        qed
      qed
    qed
  qed
qed

text \<open>
  Every outcome the loop pushes is pushed for one entry, in the world that the entries
  before it have left.
\<close>

lemma loop_files_origin:
  "extract_loop H now srcs cs fs0 w = (e, fs, w') \<Longrightarrow> f \<in> set fs
    \<Longrightarrow> f \<in> set fs0
      \<or> (\<exists>i c fs_i w_i w_j. i < length srcs \<and> i < length cs \<and> cs ! i = Some c
            \<and> extract_loop H now (take i srcs) cs fs0 w = (None, fs_i, w_i)
            \<and> extract_entry H now (srcs ! i) c w_i = (w_j, Inr f))"
proof (induction H now srcs cs fs0 w rule: extract_loop.induct)
  case (1 H now cs fs w)
  then show ?case by simp
next
  case (2 H now sourcePath sps cs fs0 w)
  have shift: "f \<in> set fs1 \<or> (\<exists>i c fs_i w_i w_j. i < length sps \<and> i < length (tl cs) \<and> tl cs ! i = Some c
            \<and> extract_loop H now (take i sps) (tl cs) fs1 w1 = (None, fs_i, w_i)
            \<and> extract_entry H now (sps ! i) c w_i = (w_j, Inr f))
      \<Longrightarrow> extract_loop H now [sourcePath] cs fs0 w = (None, fs1, w1)
      \<Longrightarrow> f \<in> set fs1 \<or> (\<exists>i c fs_i w_i w_j. i < length (sourcePath # sps) \<and> i < length cs \<and> cs ! i = Some c
            \<and> extract_loop H now (take i (sourcePath # sps)) cs fs0 w = (None, fs_i, w_i)
            \<and> extract_entry H now ((sourcePath # sps) ! i) c w_i = (w_j, Inr f))" for fs1 w1
  proof (erule disjE)
    assume "f \<in> set fs1" then show ?thesis by simp
  next
    assume "\<exists>i c fs_i w_i w_j. i < length sps \<and> i < length (tl cs) \<and> tl cs ! i = Some c
            \<and> extract_loop H now (take i sps) (tl cs) fs1 w1 = (None, fs_i, w_i)
            \<and> extract_entry H now (sps ! i) c w_i = (w_j, Inr f)"
      and one: "extract_loop H now [sourcePath] cs fs0 w = (None, fs1, w1)"
    then obtain i c fs_i w_i w_j where i: "i < length sps" "i < length (tl cs)" "tl cs ! i = Some c"
      and pre: "extract_loop H now (take i sps) (tl cs) fs1 w1 = (None, fs_i, w_i)"
      and ent: "extract_entry H now (sps ! i) c w_i = (w_j, Inr f)" by blast
    from i(2,3) have ci: "Suc i < length cs" "cs ! Suc i = Some c" by (cases cs; simp)+
    from one pre have "extract_loop H now (take (Suc i) (sourcePath # sps)) cs fs0 w = (None, fs_i, w_i)"
      by (auto split: option.splits if_splits prod.splits sum.splits)
    with i(1) ci ent have "Suc i < length (sourcePath # sps) \<and> Suc i < length cs \<and> cs ! Suc i = Some c
            \<and> extract_loop H now (take (Suc i) (sourcePath # sps)) cs fs0 w = (None, fs_i, w_i)
            \<and> extract_entry H now ((sourcePath # sps) ! Suc i) c w_i = (w_j, Inr f)" by simp
    then show ?thesis by blast
  qed
  show ?case
  proof (cases "case cs of [] \<Rightarrow> None | c # _ \<Rightarrow> c")
    case None
    with 2(4) have run: "extract_loop H now sps (tl cs) fs0 w = (e, fs, w')" by simp
    from None have one: "extract_loop H now [sourcePath] cs fs0 w = (None, fs0, w)" by simp
    from shift[OF "2.IH"(1)[OF None run 2(5)] one] show ?thesis .
  next
    case (Some sourceContent)
    show ?thesis
    proof (cases "sourceContent = []")
      case True
      with Some 2(4) have run: "extract_loop H now sps (tl cs) fs0 w = (e, fs, w')" by simp
      from Some True have one: "extract_loop H now [sourcePath] cs fs0 w = (None, fs0, w)" by simp
      from shift[OF "2.IH"(2)[OF Some True run 2(5)] one] show ?thesis .
    next
      case False
      obtain w1 r where ent: "extract_entry H now sourcePath sourceContent w = (w1, r)"
        by (cases "extract_entry H now sourcePath sourceContent w")
      show ?thesis
      proof (cases r)
        case (Inl msg)
        with Some False ent 2 show ?thesis by simp
      next
        case (Inr g)
        with Some False ent 2(4) have run: "extract_loop H now sps (tl cs) (fs0 @ [g]) w1 = (e, fs, w')"
          by simp
        from Some False ent Inr have one: "extract_loop H now [sourcePath] cs fs0 w = (None, fs0 @ [g], w1)"
          by simp
        from shift[OF "2.IH"(3)[OF Some False ent[symmetric] Inr run 2(5)] one]
        have "f \<in> set (fs0 @ [g]) \<or> (\<exists>i c fs_i w_i w_j. i < length (sourcePath # sps) \<and> i < length cs \<and> cs ! i = Some c
            \<and> extract_loop H now (take i (sourcePath # sps)) cs fs0 w = (None, fs_i, w_i)
            \<and> extract_entry H now ((sourcePath # sps) ! i) c w_i = (w_j, Inr f))" .
        moreover have "\<exists>i c fs_i w_i w_j. i < length (sourcePath # sps) \<and> i < length cs \<and> cs ! i = Some c
            \<and> extract_loop H now (take i (sourcePath # sps)) cs fs0 w = (None, fs_i, w_i)
            \<and> extract_entry H now ((sourcePath # sps) ! i) c w_i = (w_j, Inr f)" if "f = g"
        proof -
          from Some have c0: "0 < length cs" "cs ! 0 = Some sourceContent" by (cases cs; simp)+
          with ent Inr that have "0 < length (sourcePath # sps) \<and> 0 < length cs \<and> cs ! 0 = Some sourceContent
            \<and> extract_loop H now (take 0 (sourcePath # sps)) cs fs0 w = (None, fs0, w)
            \<and> extract_entry H now ((sourcePath # sps) ! 0) sourceContent w = (w1, Inr f)" by simp
          then show ?thesis by blast
        qed
        ultimately show ?thesis by auto
      qed
    qed
  qed
qed

lemma job_files_origin:
  assumes "f \<in> set (files (fst (downloadAndExtractSourcemap H now net u w)))"
  shows "\<exists>st sm srcs cs i c fs_i w_i w_j.
      net u = Response st (JsonDoc sm) \<and> sources sm = Some srcs \<and> sourcesContent sm = Some cs
      \<and> i < length srcs \<and> i < length cs \<and> cs ! i = Some c
      \<and> extract_loop H now (take i srcs) cs [] w = (None, fs_i, w_i)
      \<and> extract_entry H now (srcs ! i) c w_i = (w_j, Inr f)"
proof -
  from assms obtain st sm srcs cs e fs w' where
    n: "net u = Response st (JsonDoc sm)" "sources sm = Some srcs" "sourcesContent sm = Some cs"
    and run: "extract_loop H now srcs cs [] w = (e, fs, w')" and f: "f \<in> set fs"
    by (auto simp: downloadAndExtractSourcemap_def Let_def
        split: fetched.splits body.splits option.splits prod.splits if_splits)
  from loop_files_origin[OF run f] n show ?thesis by simp
qed

lemma revisions_not_found: "updateRevisions now example_net w = (w, None)"
  by (simp add: updateRevisions_def example_net_def HOST_def response_ok_def)

lemma revisions_offline: "updateRevisions now offline_net w = (w, Some ''fetch failed'')"
  by (simp add: updateRevisions_def offline_net_def)

text \<open>The manifest of the example, as \<^verbatim>\<open>updateRevisions\<close> writes it.\<close>

lemma revisions_written:
  "journal (fst (updateRevisions 2000 manifest_net empty_world))
     = [WriteFile ''revisions.json''
          (''['' @ [CHR 0x0A] @ ''  '' @ [CHR 0x22] @ ''/css/main.css'' @ [CHR 0x22] @ '','' @ [CHR 0x0A]
           @ ''  '' @ [CHR 0x22] @ ''/js/a.js'' @ [CHR 0x22] @ '','' @ [CHR 0x0A]
           @ ''  '' @ [CHR 0x22] @ ''/js/b.js'' @ [CHR 0x22] @ [CHR 0x0A] @ '']'')]
   \<and> snd (updateRevisions 2000 manifest_net empty_world) = None"
  by code_simp

text \<open>
  C9: every outcome of the job for a URL has \<open>success\<close> true exactly when \<open>error\<close>
  is \<open>null\<close>, and carries that URL. A file outcome in it has a \<open>previousModified\<close>
  time only if it is marked changed and the file existed before with another content:
  the outcome was pushed for an entry \<open>i\<close> of the sourcemap of this URL, and in the
  world that the entries before \<open>i\<close> had left of the world the job started in, the path
  of the outcome named a file with that modification time and a content different from
  the content of the entry.
\<close>

theorem outcome_invariants:
  "success (fst (downloadAndExtractSourcemap H now net u w))
     = (error (fst (downloadAndExtractSourcemap H now net u w)) = None)
   \<and> url (fst (downloadAndExtractSourcemap H now net u w)) = u
   \<and> (\<forall>f \<in> set (files (fst (downloadAndExtractSourcemap H now net u w))). \<forall>m.
         previousModified f = Some m \<longrightarrow>
           isChanged f
           \<and> (\<exists>st sm srcs cs i c fs_i w_i w_j held.
                 net u = Response st (JsonDoc sm) \<and> sources sm = Some srcs \<and> sourcesContent sm = Some cs
                 \<and> i < length srcs \<and> i < length cs \<and> cs ! i = Some c
                 \<and> extract_loop H now (take i srcs) cs [] w = (None, fs_i, w_i)
                 \<and> extract_entry H now (srcs ! i) c w_i = (w_j, Inr f)
                 \<and> path f = localPath_of (srcs ! i)
                 \<and> lookup (tree w_i) (resolve (cwd w_i) (path f)) = Some (File held m)
                 \<and> held \<noteq> c))"
proof -
  let ?r = "fst (downloadAndExtractSourcemap H now net u w)"
  have "isChanged f
           \<and> (\<exists>st sm srcs cs i c fs_i w_i w_j held.
                 net u = Response st (JsonDoc sm) \<and> sources sm = Some srcs \<and> sourcesContent sm = Some cs
                 \<and> i < length srcs \<and> i < length cs \<and> cs ! i = Some c
                 \<and> extract_loop H now (take i srcs) cs [] w = (None, fs_i, w_i)
                 \<and> extract_entry H now (srcs ! i) c w_i = (w_j, Inr f)
                 \<and> path f = localPath_of (srcs ! i)
                 \<and> lookup (tree w_i) (resolve (cwd w_i) (path f)) = Some (File held m)
                 \<and> held \<noteq> c)"
    if f: "f \<in> set (files ?r)" and m: "previousModified f = Some m" for f m
  proof -
    from job_files_origin[OF f] obtain st sm srcs cs i c fs_i w_i w_j where
      n: "net u = Response st (JsonDoc sm)" "sources sm = Some srcs" "sourcesContent sm = Some cs"
      and i: "i < length srcs" "i < length cs" "cs ! i = Some c"
      and pre: "extract_loop H now (take i srcs) cs [] w = (None, fs_i, w_i)"
      and ent: "extract_entry H now (srcs ! i) c w_i = (w_j, Inr f)" by blast
    from entry_previous[OF ent m] obtain held where
      ch: "isChanged f" and lk: "lookup (tree w_i) (resolve (cwd w_i) (path f)) = Some (File held m)"
      and h: "H held \<noteq> H c" by blast
    from h have ne: "held \<noteq> c" by auto
    from n i pre ent entry_path[OF ent] lk ne
    have "net u = Response st (JsonDoc sm) \<and> sources sm = Some srcs \<and> sourcesContent sm = Some cs
                 \<and> i < length srcs \<and> i < length cs \<and> cs ! i = Some c
                 \<and> extract_loop H now (take i srcs) cs [] w = (None, fs_i, w_i)
                 \<and> extract_entry H now (srcs ! i) c w_i = (w_j, Inr f)
                 \<and> path f = localPath_of (srcs ! i)
                 \<and> lookup (tree w_i) (resolve (cwd w_i) (path f)) = Some (File held m)
                 \<and> held \<noteq> c" by simp
    then have "\<exists>st sm srcs cs i c fs_i w_i w_j held.
                 net u = Response st (JsonDoc sm) \<and> sources sm = Some srcs \<and> sourcesContent sm = Some cs
                 \<and> i < length srcs \<and> i < length cs \<and> cs ! i = Some c
                 \<and> extract_loop H now (take i srcs) cs [] w = (None, fs_i, w_i)
                 \<and> extract_entry H now (srcs ! i) c w_i = (w_j, Inr f)
                 \<and> path f = localPath_of (srcs ! i)
                 \<and> lookup (tree w_i) (resolve (cwd w_i) (path f)) = Some (File held m)
                 \<and> held \<noteq> c" by blast
    with ch show ?thesis by simp
  qed
  with job_success_iff[of H now net u w] job_url[of H now net u w] show ?thesis by blast
qed

text \<open>
  C4: the job returns an outcome in every case. A status outside 200..299 gives
  \<open>success = false\<close> and the error \<open>HTTP <status>\<close> (404 gives \<open>HTTP 404\<close>); a document
  without \<open>sources\<close> or without \<open>sourcesContent\<close> gives \<open>Invalid sourcemap format\<close>; a
  request that throws, a body that does not parse or is \<open>null\<close>, and a file operation
  that throws inside the loop give \<open>success = false\<close> with the message of the error.
  Whatever the jobs meet, the batches return one outcome per link, the outcome at index
  \<open>j\<close> being the outcome of the job for link \<open>j\<close>, and \<open>main\<close> goes on to the report over
  these outcomes. The jobs are reached when \<^verbatim>\<open>updateRevisions\<close>, which runs before them,
  has returned; an error thrown there, outside every job, rejects \<open>main\<close> before the
  first job.
\<close>

theorem extraction_failures_are_outcomes:
  "(net u = Response st b \<and> \<not> response_ok st \<longrightarrow>
      downloadAndExtractSourcemap H now net u w
        = (\<lparr>url = u, success = False, files = [], error = Some (''HTTP '' @ show_nat st)\<rparr>, w))
   \<and> ''HTTP '' @ show_nat 404 = ''HTTP 404''
   \<and> (net u = Response st (JsonDoc sm) \<and> response_ok st
        \<and> (sources sm = None \<or> sourcesContent sm = None) \<longrightarrow>
      downloadAndExtractSourcemap H now net u w
        = (\<lparr>url = u, success = False, files = [], error = Some ''Invalid sourcemap format''\<rparr>, w))
   \<and> (net u = FetchThrows msg \<longrightarrow>
      downloadAndExtractSourcemap H now net u w
        = (\<lparr>url = u, success = False, files = [], error = Some msg\<rparr>, w))
   \<and> (net u = Response st (JsonThrows msg) \<and> response_ok st \<longrightarrow>
      downloadAndExtractSourcemap H now net u w
        = (\<lparr>url = u, success = False, files = [], error = Some msg\<rparr>, w))
   \<and> (net u = Response st (JsonDoc sm) \<and> response_ok st
        \<and> sources sm = Some srcs \<and> sourcesContent sm = Some cs
        \<and> extract_loop H now srcs cs [] w = (Some msg, fs, w') \<longrightarrow>
      downloadAndExtractSourcemap H now net u w
        = (\<lparr>url = u, success = False, files = fs, error = Some msg\<rparr>, w'))
   \<and> (net u = Response st JsonNull \<and> response_ok st \<longrightarrow>
      downloadAndExtractSourcemap H now net u w
        = (\<lparr>url = u, success = False, files = [],
            error = Some (''Cannot read properties of null (reading '' @ quoted ''sources'' @ '')'')\<rparr>, w))
   \<and> (updateRevisions now net w = (w0, None) \<longrightarrow>
        (\<exists>rs w1 tr.
           processInBatches (map (\<lambda>link. ''https://'' @ HOST @ link @ ''.map'') links) CONCURRENCY
               (downloadAndExtractSourcemap H now net) finish w0 = Some (rs, w1, tr)
           \<and> length rs = length links
           \<and> (\<forall>j < length links. \<exists>s. rs ! j
                 = fst (downloadAndExtractSourcemap H now net (''https://'' @ HOST @ links ! j @ ''.map'') s))
           \<and> main H collate now net finish links w
                 = Some (rs, fst (report collate now rs w1), snd (report collate now rs w1))))
   \<and> (updateRevisions now net w = (w0, Some msg) \<longrightarrow>
        main H collate now net finish links w = Some ([], w0, Rejected msg))"
proof -
  have a: "net u = Response st b \<and> \<not> response_ok st \<longrightarrow>
      downloadAndExtractSourcemap H now net u w
        = (\<lparr>url = u, success = False, files = [], error = Some (''HTTP '' @ show_nat st)\<rparr>, w)"
    using job_http_error[of net u st b H now w] by blast
  have b: "''HTTP '' @ show_nat 404 = ''HTTP 404''"
    unfolding show_nat_404 by simp
  have c: "net u = Response st (JsonDoc sm) \<and> response_ok st
        \<and> (sources sm = None \<or> sourcesContent sm = None) \<longrightarrow>
      downloadAndExtractSourcemap H now net u w
        = (\<lparr>url = u, success = False, files = [], error = Some ''Invalid sourcemap format''\<rparr>, w)"
    using job_invalid_format[of net u st sm H now w] by blast
  have d: "net u = FetchThrows msg \<longrightarrow>
      downloadAndExtractSourcemap H now net u w
        = (\<lparr>url = u, success = False, files = [], error = Some msg\<rparr>, w)"
    using job_fetch_throws[of net u msg H now w] by blast
  have e: "net u = Response st (JsonThrows msg) \<and> response_ok st \<longrightarrow>
      downloadAndExtractSourcemap H now net u w
        = (\<lparr>url = u, success = False, files = [], error = Some msg\<rparr>, w)"
    using job_json_throws[of net u st msg H now w] by blast
  have f: "net u = Response st (JsonDoc sm) \<and> response_ok st
        \<and> sources sm = Some srcs \<and> sourcesContent sm = Some cs
        \<and> extract_loop H now srcs cs [] w = (Some msg, fs, w') \<longrightarrow>
      downloadAndExtractSourcemap H now net u w
        = (\<lparr>url = u, success = False, files = fs, error = Some msg\<rparr>, w')"
    using job_io_throws[of net u st sm srcs cs H now w msg fs w'] by blast
  have g: "net u = Response st JsonNull \<and> response_ok st \<longrightarrow>
      downloadAndExtractSourcemap H now net u w
        = (\<lparr>url = u, success = False, files = [],
            error = Some (''Cannot read properties of null (reading '' @ quoted ''sources'' @ '')'')\<rparr>, w)"
    using job_json_null[of net u st H now w] by blast
  have h: "updateRevisions now net w = (w0, None) \<longrightarrow>
        (\<exists>rs w1 tr.
           processInBatches (map (\<lambda>link. ''https://'' @ HOST @ link @ ''.map'') links) CONCURRENCY
               (downloadAndExtractSourcemap H now net) finish w0 = Some (rs, w1, tr)
           \<and> length rs = length links
           \<and> (\<forall>j < length links. \<exists>s. rs ! j
                 = fst (downloadAndExtractSourcemap H now net (''https://'' @ HOST @ links ! j @ ''.map'') s))
           \<and> main H collate now net finish links w
                 = Some (rs, fst (report collate now rs w1), snd (report collate now rs w1)))"
  proof
    assume rev: "updateRevisions now net w = (w0, None)"
    from batches_of_main[of links H now net finish w0] obtain rs w1 tr where
      run: "processInBatches (map (\<lambda>link. ''https://'' @ HOST @ link @ ''.map'') links) CONCURRENCY
               (downloadAndExtractSourcemap H now net) finish w0 = Some (rs, w1, tr)"
      and len: "length rs = length links"
      and each: "\<forall>j < length links. \<exists>s. rs ! j
                 = fst (downloadAndExtractSourcemap H now net (''https://'' @ HOST @ links ! j @ ''.map'') s)"
      by blast
    from main_after_revisions[OF rev run]
    have "main H collate now net finish links w
                 = Some (rs, fst (report collate now rs w1), snd (report collate now rs w1))" .
    with run len each show "\<exists>rs w1 tr.
           processInBatches (map (\<lambda>link. ''https://'' @ HOST @ link @ ''.map'') links) CONCURRENCY
               (downloadAndExtractSourcemap H now net) finish w0 = Some (rs, w1, tr)
           \<and> length rs = length links
           \<and> (\<forall>j < length links. \<exists>s. rs ! j
                 = fst (downloadAndExtractSourcemap H now net (''https://'' @ HOST @ links ! j @ ''.map'') s))
           \<and> main H collate now net finish links w
                 = Some (rs, fst (report collate now rs w1), snd (report collate now rs w1))"
      by (intro exI conjI)
  qed
  have i: "updateRevisions now net w = (w0, Some msg) \<longrightarrow>
        main H collate now net finish links w = Some ([], w0, Rejected msg)"
    using main_revisions_throw[of now net w w0 msg H collate finish links] by blast
  from a b c d e f g h i show ?thesis by (intro conjI)
qed

lemma clash_loop_error:
  "fst (extract_loop md5_known 2000 [''webpack:///a'', ''webpack:///a/b'']
          [Some ''const x=1;'', Some ''const x=2;''] [] empty_world)
     = Some (''EEXIST: file already exists, mkdir '' @ quoted ''a'')"
  by code_simp

lemma clash_loop_files:
  "fst (snd (extract_loop md5_known 2000 [''webpack:///a'', ''webpack:///a/b'']
          [Some ''const x=1;'', Some ''const x=2;''] [] empty_world))
     = [\<lparr>path = ''a'', isChanged = True, previousModified = None\<rparr>]"
  by code_simp

lemma missing_url: "''https://'' @ HOST @ [''/missing''] ! 0 @ ''.map'' = ''https://spaces.im/missing.map''"
  by (simp add: HOST_def)

lemma missing_answer:
  "example_net ''https://spaces.im/missing.map'' = Response 404 (JsonThrows ''Unexpected end of JSON input'')
    \<and> \<not> response_ok 404"
  by (simp add: example_net_def response_ok_def)

theorem extraction_failures_are_outcomes_witness:
  "fst (downloadAndExtractSourcemap md5_known 2000 example_net ''https://spaces.im/missing.map'' empty_world)
     = \<lparr>url = ''https://spaces.im/missing.map'', success = False, files = [], error = Some ''HTTP 404''\<rparr>
   \<and> fst (downloadAndExtractSourcemap md5_known 2000 example_net ''https://spaces.im/nocontent.map'' empty_world)
     = \<lparr>url = ''https://spaces.im/nocontent.map'', success = False, files = [],
        error = Some ''Invalid sourcemap format''\<rparr>
   \<and> fst (downloadAndExtractSourcemap md5_known 2000 example_net ''https://spaces.im/offline.map'' empty_world)
     = \<lparr>url = ''https://spaces.im/offline.map'', success = False, files = [], error = Some ''fetch failed''\<rparr>
   \<and> fst (downloadAndExtractSourcemap md5_known 2000 example_net ''https://spaces.im/html.map'' empty_world)
     = \<lparr>url = ''https://spaces.im/html.map'', success = False, files = [],
        error = Some ''Unexpected token < in JSON at position 0''\<rparr>
   \<and> fst (downloadAndExtractSourcemap md5_known 2000 example_net ''https://spaces.im/clash.map'' empty_world)
     = \<lparr>url = ''https://spaces.im/clash.map'', success = False,
        files = [\<lparr>path = ''a'', isChanged = True, previousModified = None\<rparr>],
        error = Some (''EEXIST: file already exists, mkdir '' @ quoted ''a'')\<rparr>
   \<and> fst (downloadAndExtractSourcemap md5_known 2000 example_net ''https://spaces.im/null.map'' empty_world)
     = \<lparr>url = ''https://spaces.im/null.map'', success = False, files = [],
        error = Some (''Cannot read properties of null (reading '' @ quoted ''sources'' @ '')'')\<rparr>
   \<and> (\<exists>w2 e. main md5_known byte_order 2000 example_net as_started [''/missing''] empty_world
         = Some ([\<lparr>url = ''https://spaces.im/missing.map'', success = False, files = [],
                   error = Some ''HTTP 404''\<rparr>], w2, e))
   \<and> main md5_known byte_order 2000 offline_net as_started [''/missing''] empty_world
         = Some ([], empty_world, Rejected ''fetch failed'')"
proof -
  let ?bad = "JsonThrows ''Unexpected end of JSON input''"
  let ?nocontent = "\<lparr>sources = Some [''webpack:///src/app.js''], sourcesContent = None, js = None, css = None\<rparr>"
  let ?srcs = "[''webpack:///a'', ''webpack:///a/b'']"
  let ?cs = "[Some ''const x=1;'', Some ''const x=2;'']"
  let ?clash = "\<lparr>sources = Some ?srcs, sourcesContent = Some ?cs, js = None, css = None\<rparr>"
  let ?loop = "extract_loop md5_known 2000 ?srcs ?cs [] empty_world"
  let ?missing = "\<lparr>url = ''https://spaces.im/missing.map'', success = False, files = [],
                   error = Some ''HTTP 404''\<rparr>"
  note t = extraction_failures_are_outcomes[where H = md5_known and now = 2000 and net = example_net
      and w = empty_world and collate = byte_order and finish = as_started and links = "[''/missing'']"
      and ?w0.0 = empty_world]
  from missing_answer t[where u = "''https://spaces.im/missing.map''" and st = 404 and b = ?bad]
  have a: "fst (downloadAndExtractSourcemap md5_known 2000 example_net ''https://spaces.im/missing.map'' empty_world)
     = ?missing"
    by simp
  have "example_net ''https://spaces.im/nocontent.map'' = Response 200 (JsonDoc ?nocontent)
      \<and> response_ok 200 \<and> (sources ?nocontent = None \<or> sourcesContent ?nocontent = None)"
    by (simp add: example_net_def response_ok_def)
  with t[where u = "''https://spaces.im/nocontent.map''" and st = 200 and sm = ?nocontent]
  have b: "fst (downloadAndExtractSourcemap md5_known 2000 example_net ''https://spaces.im/nocontent.map'' empty_world)
     = \<lparr>url = ''https://spaces.im/nocontent.map'', success = False, files = [],
        error = Some ''Invalid sourcemap format''\<rparr>"
    by simp
  have "example_net ''https://spaces.im/offline.map'' = FetchThrows ''fetch failed''"
    by (simp add: example_net_def)
  with t[where u = "''https://spaces.im/offline.map''" and msg = "''fetch failed''"]
  have c: "fst (downloadAndExtractSourcemap md5_known 2000 example_net ''https://spaces.im/offline.map'' empty_world)
     = \<lparr>url = ''https://spaces.im/offline.map'', success = False, files = [], error = Some ''fetch failed''\<rparr>"
    by simp
  have "example_net ''https://spaces.im/html.map'' = Response 200 (JsonThrows ''Unexpected token < in JSON at position 0'')
      \<and> response_ok 200"
    by (simp add: example_net_def response_ok_def)
  with t[where u = "''https://spaces.im/html.map''" and st = 200
      and msg = "''Unexpected token < in JSON at position 0''"]
  have d: "fst (downloadAndExtractSourcemap md5_known 2000 example_net ''https://spaces.im/html.map'' empty_world)
     = \<lparr>url = ''https://spaces.im/html.map'', success = False, files = [],
        error = Some ''Unexpected token < in JSON at position 0''\<rparr>"
    by simp
  have loop: "?loop = (Some (''EEXIST: file already exists, mkdir '' @ quoted ''a''),
      [\<lparr>path = ''a'', isChanged = True, previousModified = None\<rparr>], snd (snd ?loop))"
    using clash_loop_error clash_loop_files by (simp add: prod_eq_iff)
  have "example_net ''https://spaces.im/clash.map'' = Response 200 (JsonDoc ?clash) \<and> response_ok 200
      \<and> sources ?clash = Some ?srcs \<and> sourcesContent ?clash = Some ?cs"
    by (simp add: example_net_def response_ok_def)
  with loop t[where u = "''https://spaces.im/clash.map''" and st = 200 and sm = ?clash
      and srcs = ?srcs and cs = ?cs and msg = "''EEXIST: file already exists, mkdir '' @ quoted ''a''"
      and fs = "[\<lparr>path = ''a'', isChanged = True, previousModified = None\<rparr>]" and w' = "snd (snd ?loop)"]
  have e: "fst (downloadAndExtractSourcemap md5_known 2000 example_net ''https://spaces.im/clash.map'' empty_world)
     = \<lparr>url = ''https://spaces.im/clash.map'', success = False,
        files = [\<lparr>path = ''a'', isChanged = True, previousModified = None\<rparr>],
        error = Some (''EEXIST: file already exists, mkdir '' @ quoted ''a'')\<rparr>"
    by simp
  have "example_net ''https://spaces.im/null.map'' = Response 200 JsonNull \<and> response_ok 200"
    by (simp add: example_net_def response_ok_def)
  with t[where u = "''https://spaces.im/null.map''" and st = 200]
  have f: "fst (downloadAndExtractSourcemap md5_known 2000 example_net ''https://spaces.im/null.map'' empty_world)
     = \<lparr>url = ''https://spaces.im/null.map'', success = False, files = [],
        error = Some (''Cannot read properties of null (reading '' @ quoted ''sources'' @ '')'')\<rparr>"
    by simp
  from t revisions_not_found[of 2000 empty_world]
  obtain rs w1 where len: "length rs = length [''/missing'']"
    and each: "\<forall>j < length [''/missing'']. \<exists>s. rs ! j
        = fst (downloadAndExtractSourcemap md5_known 2000 example_net (''https://'' @ HOST @ [''/missing''] ! j @ ''.map'') s)"
    and run: "main md5_known byte_order 2000 example_net as_started [''/missing''] empty_world
        = Some (rs, fst (report byte_order 2000 rs w1), snd (report byte_order 2000 rs w1))"
    by blast
  from each obtain s where "rs ! 0
        = fst (downloadAndExtractSourcemap md5_known 2000 example_net (''https://'' @ HOST @ [''/missing''] ! 0 @ ''.map'') s)"
    by auto
  then have "rs ! 0 = fst (downloadAndExtractSourcemap md5_known 2000 example_net ''https://spaces.im/missing.map'' s)"
    unfolding missing_url .
  moreover from missing_answer extraction_failures_are_outcomes[where H = md5_known and now = 2000
      and net = example_net and w = s and u = "''https://spaces.im/missing.map''" and st = 404 and b = ?bad]
  have "downloadAndExtractSourcemap md5_known 2000 example_net ''https://spaces.im/missing.map'' s
      = (\<lparr>url = ''https://spaces.im/missing.map'', success = False, files = [],
           error = Some (''HTTP '' @ show_nat 404)\<rparr>, s)"
    by blast
  ultimately have "rs ! 0 = ?missing" by (simp add: show_nat_404)
  with len have "rs = [?missing]" by (cases rs) simp_all
  with run have g: "\<exists>w2 e. main md5_known byte_order 2000 example_net as_started [''/missing''] empty_world
         = Some ([?missing], w2, e)" by blast
  from extraction_failures_are_outcomes[where now = 2000 and net = offline_net and w = empty_world
      and ?w0.0 = empty_world and msg = "''fetch failed''" and H = md5_known and collate = byte_order
      and finish = as_started and links = "[''/missing'']"] revisions_offline[of 2000 empty_world]
  have h: "main md5_known byte_order 2000 offline_net as_started [''/missing''] empty_world
         = Some ([], empty_world, Rejected ''fetch failed'')" by blast
  from a b c d e f g h show ?thesis by (intro conjI)
qed

lemma stale_job:
  "fst (downloadAndExtractSourcemap md5_known 2000 example_net ''https://spaces.im/foo.map'' stale_world)
     = \<lparr>url = ''https://spaces.im/foo.map'', success = True,
        files = [\<lparr>path = ''src/app.js'', isChanged = True, previousModified = Some 1000\<rparr>],
        error = None\<rparr>"
  by code_simp

lemma foo_answer:
  "example_net ''https://spaces.im/foo.map''
     = Response 200 (JsonDoc \<lparr>sources = Some [''webpack:///src/app.js''],
                              sourcesContent = Some [Some ''const x=1;''], js = None, css = None\<rparr>)"
  by (simp add: example_net_def)

theorem outcome_invariants_witness:
  "\<lparr>path = ''src/app.js'', isChanged = True, previousModified = Some 1000\<rparr>
     \<in> set (files (fst (downloadAndExtractSourcemap md5_known 2000 example_net ''https://spaces.im/foo.map'' stale_world)))
   \<and> (\<exists>w_j held.
         extract_loop md5_known 2000 (take 0 [''webpack:///src/app.js'']) [Some ''const x=1;''] [] stale_world
           = (None, [], stale_world)
         \<and> extract_entry md5_known 2000 ([''webpack:///src/app.js''] ! 0) ''const x=1;'' stale_world
           = (w_j, Inr \<lparr>path = ''src/app.js'', isChanged = True, previousModified = Some 1000\<rparr>)
         \<and> lookup (tree stale_world) (resolve (cwd stale_world) ''src/app.js'') = Some (File held 1000)
         \<and> held \<noteq> ''const x=1;'')"
proof -
  let ?f = "\<lparr>path = ''src/app.js'', isChanged = True, previousModified = Some 1000\<rparr>"
  let ?r = "fst (downloadAndExtractSourcemap md5_known 2000 example_net ''https://spaces.im/foo.map'' stale_world)"
  have mem: "?f \<in> set (files ?r)" by (simp add: stale_job)
  have prev: "previousModified ?f = Some 1000" by simp
  from outcome_invariants[of md5_known 2000 example_net "''https://spaces.im/foo.map''" stale_world]
  have "\<forall>f \<in> set (files ?r). \<forall>m. previousModified f = Some m \<longrightarrow>
           isChanged f
           \<and> (\<exists>st sm srcs cs i c fs_i w_i w_j held.
                 example_net ''https://spaces.im/foo.map'' = Response st (JsonDoc sm)
                 \<and> sources sm = Some srcs \<and> sourcesContent sm = Some cs
                 \<and> i < length srcs \<and> i < length cs \<and> cs ! i = Some c
                 \<and> extract_loop md5_known 2000 (take i srcs) cs [] stale_world = (None, fs_i, w_i)
                 \<and> extract_entry md5_known 2000 (srcs ! i) c w_i = (w_j, Inr f)
                 \<and> path f = localPath_of (srcs ! i)
                 \<and> lookup (tree w_i) (resolve (cwd w_i) (path f)) = Some (File held m)
                 \<and> held \<noteq> c)"
    by blast
  from this mem have "\<forall>m. previousModified ?f = Some m \<longrightarrow>
           isChanged ?f
           \<and> (\<exists>st sm srcs cs i c fs_i w_i w_j held.
                 example_net ''https://spaces.im/foo.map'' = Response st (JsonDoc sm)
                 \<and> sources sm = Some srcs \<and> sourcesContent sm = Some cs
                 \<and> i < length srcs \<and> i < length cs \<and> cs ! i = Some c
                 \<and> extract_loop md5_known 2000 (take i srcs) cs [] stale_world = (None, fs_i, w_i)
                 \<and> extract_entry md5_known 2000 (srcs ! i) c w_i = (w_j, Inr ?f)
                 \<and> path ?f = localPath_of (srcs ! i)
                 \<and> lookup (tree w_i) (resolve (cwd w_i) (path ?f)) = Some (File held m)
                 \<and> held \<noteq> c)"
    by (rule bspec)
  then have "previousModified ?f = Some 1000 \<longrightarrow>
           isChanged ?f
           \<and> (\<exists>st sm srcs cs i c fs_i w_i w_j held.
                 example_net ''https://spaces.im/foo.map'' = Response st (JsonDoc sm)
                 \<and> sources sm = Some srcs \<and> sourcesContent sm = Some cs
                 \<and> i < length srcs \<and> i < length cs \<and> cs ! i = Some c
                 \<and> extract_loop md5_known 2000 (take i srcs) cs [] stale_world = (None, fs_i, w_i)
                 \<and> extract_entry md5_known 2000 (srcs ! i) c w_i = (w_j, Inr ?f)
                 \<and> path ?f = localPath_of (srcs ! i)
                 \<and> lookup (tree w_i) (resolve (cwd w_i) (path ?f)) = Some (File held 1000)
                 \<and> held \<noteq> c)"
    by (rule spec)
  from this prev have "isChanged ?f
           \<and> (\<exists>st sm srcs cs i c fs_i w_i w_j held.
                 example_net ''https://spaces.im/foo.map'' = Response st (JsonDoc sm)
                 \<and> sources sm = Some srcs \<and> sourcesContent sm = Some cs
                 \<and> i < length srcs \<and> i < length cs \<and> cs ! i = Some c
                 \<and> extract_loop md5_known 2000 (take i srcs) cs [] stale_world = (None, fs_i, w_i)
                 \<and> extract_entry md5_known 2000 (srcs ! i) c w_i = (w_j, Inr ?f)
                 \<and> path ?f = localPath_of (srcs ! i)
                 \<and> lookup (tree w_i) (resolve (cwd w_i) (path ?f)) = Some (File held 1000)
                 \<and> held \<noteq> c)"
    by (rule mp)
  then obtain st sm srcs cs i c fs_i w_i w_j held where
    n: "example_net ''https://spaces.im/foo.map'' = Response st (JsonDoc sm)"
      "sources sm = Some srcs" "sourcesContent sm = Some cs"
    and i: "i < length srcs" "cs ! i = Some c"
    and pre: "extract_loop md5_known 2000 (take i srcs) cs [] stale_world = (None, fs_i, w_i)"
    and ent: "extract_entry md5_known 2000 (srcs ! i) c w_i = (w_j, Inr ?f)"
    and lk: "lookup (tree w_i) (resolve (cwd w_i) (path ?f)) = Some (File held 1000)"
    and ne: "held \<noteq> c"
    by (elim conjE exE)
  from n have srcs: "srcs = [''webpack:///src/app.js'']" and cs: "cs = [Some ''const x=1;'']"
    unfolding foo_answer by auto
  from i(1) srcs have i0: "i = 0" by simp
  from i(2) cs i0 have c: "c = ''const x=1;''" by simp
  from pre i0 have wi: "w_i = stale_world" "fs_i = []" by simp_all
  from pre ent lk ne show ?thesis
    unfolding srcs cs c wi i0 using mem by auto
qed

section \<open>Unchanged files\<close>

lemma entry_unchanged:
  assumes "fileExists (cwd w) (tree w) (localPath_of sp)"
    and "fs_readFile (cwd w) (tree w) (localPath_of sp) = Inr existing"
    and "H content = H existing"
  shows "extract_entry H now sp content w
     = (w, Inr \<lparr>path = localPath_of sp, isChanged = False, previousModified = None\<rparr>)"
  using assms by (simp add: extract_entry_def localPath_of_def Let_def getFileHash_def)

lemma lookup_file_key:
  assumes "lookup t p = Some (File c m)"
  shows "strip_slash p = p \<and> t p = Some (File c m) \<and> p \<noteq> ''.''
     \<and> \<not> list_all (\<lambda>seg. seg = ''..'') (split_slash p)"
  using assms by (auto simp: lookup_def Let_def split: if_splits option.splits node.splits)

lemma lookup_update_other:
  assumes "lookup t p = Some (File c m)" "q \<noteq> p"
  shows "lookup (t(q \<mapsto> n)) p = Some (File c m)"
  using lookup_file_key[OF assms(1)] assms(2) by (simp add: lookup_def Let_def)

lemma mkdir_segs_frame:
  "lookup t p = Some (File c m) \<Longrightarrow> mkdir_segs dir base t pre segs = (t', e)
    \<Longrightarrow> lookup t' p = Some (File c m)"
proof (induction dir base t pre segs rule: mkdir_segs.induct)
  case (1 dir base t pre)
  then show ?case by simp
next
  case (2 dir base t pre seg segs)
  let ?q = "if pre = [] then seg else pre @ ''/'' @ seg"
  let ?k = "resolve base ?q"
  show ?case
  proof (cases "lookup t ?k")
    case None
    with 2(3) have qp: "?k \<noteq> p" by auto
    from lookup_update_other[OF 2(3) qp] have keep: "lookup (t(?k \<mapsto> Dir)) p = Some (File c m)" .
    from None 2(4) have "mkdir_segs dir base (t(?k \<mapsto> Dir)) ?q segs = (t', e)"
      by (simp add: Let_def)
    from "2.IH"(1)[OF refl None keep this] show ?thesis .
  next
    case (Some n)
    show ?thesis
    proof (cases n)
      case (File c' m')
      with Some 2(4) have "t' = t" by (simp add: Let_def)
      with 2(3) show ?thesis by simp
    next
      case Dir
      with Some 2(4) have "mkdir_segs dir base t ?q segs = (t', e)" by (simp add: Let_def)
      from "2.IH"(2)[OF refl Some Dir 2(3) this] show ?thesis .
    qed
  qed
qed

lemma write_changed_cwd: "write_changed now lp x prev w = (w', r) \<Longrightarrow> cwd w' = cwd w"
  by (auto simp: write_changed_def Let_def split: prod.splits option.splits)

lemma extract_entry_cwd: "extract_entry H now sp content w = (w', r) \<Longrightarrow> cwd w' = cwd w"
  by (auto simp: extract_entry_def Let_def write_changed_cwd split: if_splits sum.splits)

lemma write_changed_frame:
  assumes "lookup (tree w) p = Some (File c m)" "resolve (cwd w) lp \<noteq> p"
    and "write_changed now lp x prev w = (w', r)"
  shows "lookup (tree w') p = Some (File c m)"
proof -
  let ?dir = "path_dirname lp"
  obtain t1 e1 where mk: "fs_mkdir (cwd w) (tree w) ?dir = (t1, e1)"
    by (cases "fs_mkdir (cwd w) (tree w) ?dir")
  then have keep1: "lookup t1 p = Some (File c m)"
    using mkdir_segs_frame[OF assms(1)] by (simp add: fs_mkdir_def)
  show ?thesis
  proof (cases e1)
    case (Some msg)
    with mk assms(3) have "tree w' = t1" by (auto simp: write_changed_def Let_def)
    with keep1 show ?thesis by simp
  next
    case None
    obtain t2 e2 where wr: "fs_writeFile (cwd w) t1 now lp x = (t2, e2)"
      by (cases "fs_writeFile (cwd w) t1 now lp x")
    then have "t2 = t1 \<or> t2 = t1(resolve (cwd w) lp \<mapsto> File x now)"
      by (auto simp: fs_writeFile_def split: if_splits)
    with keep1 lookup_update_other[OF keep1 assms(2)] have "lookup t2 p = Some (File c m)" by auto
    moreover from mk None wr assms(3) have "tree w' = t2"
      by (auto simp: write_changed_def Let_def split: option.splits)
    ultimately show ?thesis by simp
  qed
qed

lemma extract_entry_frame:
  assumes keep: "lookup (tree w) p = Some (File c0 m)"
    and same: "resolve (cwd w) (localPath_of sp) = p \<longrightarrow> H content = H c0"
    and run: "extract_entry H now sp content w = (w', r)"
  shows "lookup (tree w') p = Some (File c0 m)"
proof (cases "resolve (cwd w) (localPath_of sp) = p")
  case True
  with keep have "fileExists (cwd w) (tree w) (localPath_of sp)"
    and "fs_readFile (cwd w) (tree w) (localPath_of sp) = Inr c0"
    by (simp_all add: fileExists_def fs_access_def fs_readFile_def)
  from entry_unchanged[OF this, of H content now] same True run have "w' = w" by simp
  with keep show ?thesis by simp
next
  case False
  then have lp: "resolve (cwd w) (path_join [''.'', cleanPath sp]) \<noteq> p" by (simp add: localPath_of_def)
  from run have "w' = w \<or> (\<exists>prev. write_changed now (path_join [''.'', cleanPath sp]) content prev w = (w', r))"
    by (auto simp: extract_entry_def Let_def split: if_splits sum.splits)
  with keep write_changed_frame[OF keep lp] show ?thesis by auto
qed

lemma extract_loop_frame:
  "lookup (tree w) p = Some (File c0 m)
    \<Longrightarrow> \<forall>e \<in> set (zip srcs cs). \<forall>content.
          snd e = Some content \<and> content \<noteq> [] \<and> resolve (cwd w) (localPath_of (fst e)) = p
          \<longrightarrow> H content = H c0
    \<Longrightarrow> extract_loop H now srcs cs fs0 w = (err, fs, w')
    \<Longrightarrow> lookup (tree w') p = Some (File c0 m)"
proof (induction H now srcs cs fs0 w rule: extract_loop.induct)
  case (1 H now cs fs w)
  then show ?case by simp
next
  case (2 H now sourcePath sps cs fs0 w)
  have rest: "\<forall>e \<in> set (zip sps (tl cs)). \<forall>content.
          snd e = Some content \<and> content \<noteq> [] \<and> resolve (cwd w) (localPath_of (fst e)) = p
          \<longrightarrow> H content = H c0"
    using 2(5) by (cases cs) auto
  show ?case
  proof (cases "case cs of [] \<Rightarrow> None | c # _ \<Rightarrow> c")
    case None
    with 2(6) have "extract_loop H now sps (tl cs) fs0 w = (err, fs, w')" by simp
    from "2.IH"(1)[OF None 2(4) rest this] show ?thesis .
  next
    case (Some sourceContent)
    show ?thesis
    proof (cases "sourceContent = []")
      case True
      with Some 2(6) have "extract_loop H now sps (tl cs) fs0 w = (err, fs, w')" by simp
      from "2.IH"(2)[OF Some True 2(4) rest this] show ?thesis .
    next
      case False
      obtain w1 r where ent: "extract_entry H now sourcePath sourceContent w = (w1, r)"
        by (cases "extract_entry H now sourcePath sourceContent w")
      from extract_entry_cwd[OF ent] have same_cwd: "cwd w1 = cwd w" .
      from Some have "(sourcePath, Some sourceContent) \<in> set (zip (sourcePath # sps) cs)"
        by (cases cs) auto
      with 2(5) False have "resolve (cwd w) (localPath_of sourcePath) = p \<longrightarrow> H sourceContent = H c0" by auto
      from extract_entry_frame[OF 2(4) this ent] have keep1: "lookup (tree w1) p = Some (File c0 m)" .
      from rest same_cwd have rest1: "\<forall>e \<in> set (zip sps (tl cs)). \<forall>content.
          snd e = Some content \<and> content \<noteq> [] \<and> resolve (cwd w1) (localPath_of (fst e)) = p
          \<longrightarrow> H content = H c0"
        by simp
      show ?thesis
      proof (cases r)
        case (Inl msg)
        with Some False ent 2(6) have "w' = w1" by simp
        with keep1 show ?thesis by simp
      next
        case (Inr g)
        with Some False ent 2(6) have "extract_loop H now sps (tl cs) (fs0 @ [g]) w1 = (err, fs, w')"
          by simp
        from "2.IH"(3)[OF Some False ent[symmetric] Inr keep1 rest1 this] show ?thesis .
      qed
    qed
  qed
qed

lemma job_frame:
  assumes "lookup (tree w) p = Some (File c0 m)"
    and "\<forall>st sm srcs cs. net u = Response st (JsonDoc sm) \<and> sources sm = Some srcs \<and> sourcesContent sm = Some cs
          \<longrightarrow> (\<forall>e \<in> set (zip srcs cs). \<forall>content.
                  snd e = Some content \<and> content \<noteq> [] \<and> resolve (cwd w) (localPath_of (fst e)) = p
                \<longrightarrow> H content = H c0)"
  shows "lookup (tree (snd (downloadAndExtractSourcemap H now net u w))) p = Some (File c0 m)"
proof -
  have "snd (downloadAndExtractSourcemap H now net u w) = w
      \<or> (\<exists>st sm srcs cs err fs. net u = Response st (JsonDoc sm) \<and> sources sm = Some srcs
            \<and> sourcesContent sm = Some cs
            \<and> extract_loop H now srcs cs [] w = (err, fs, snd (downloadAndExtractSourcemap H now net u w)))"
    by (auto simp: downloadAndExtractSourcemap_def Let_def
        split: fetched.splits body.splits option.splits prod.splits)
  then show ?thesis
  proof
    assume "snd (downloadAndExtractSourcemap H now net u w) = w"
    with assms(1) show ?thesis by simp
  next
    assume "\<exists>st sm srcs cs err fs. net u = Response st (JsonDoc sm) \<and> sources sm = Some srcs
            \<and> sourcesContent sm = Some cs
            \<and> extract_loop H now srcs cs [] w = (err, fs, snd (downloadAndExtractSourcemap H now net u w))"
    then obtain st sm srcs cs err fs where n: "net u = Response st (JsonDoc sm)" "sources sm = Some srcs"
      "sourcesContent sm = Some cs"
      and run: "extract_loop H now srcs cs [] w = (err, fs, snd (downloadAndExtractSourcemap H now net u w))"
      by blast
    from assms(2) n have "\<forall>e \<in> set (zip srcs cs). \<forall>content.
        snd e = Some content \<and> content \<noteq> [] \<and> resolve (cwd w) (localPath_of (fst e)) = p
        \<longrightarrow> H content = H c0" by blast
    from extract_loop_frame[OF assms(1) this run] show ?thesis .
  qed
qed

text \<open>
  C6, as stated, fails in its last part. The mirror holds \<open>src/app.js\<close> with the
  content \<open>const x=1;\<close>; the sourcemap lists that path twice, first with the same
  content, then with \<open>const x=2;\<close>. The first entry finds the file, with equal hash,
  and is emitted unchanged; the second rewrites the file, so the state of the path is
  not what it was before the run.
\<close>

theorem unchanged_entry_rewritten_later_counterexample:
  "fileExists (cwd mirrored_world) (tree mirrored_world) (localPath_of ''webpack:///src/app.js'')
   \<and> fs_readFile (cwd mirrored_world) (tree mirrored_world) (localPath_of ''webpack:///src/app.js'')
       = Inr ''const x=1;''
   \<and> files (fst (downloadAndExtractSourcemap md5_known 2000 example_net ''https://spaces.im/dup.map'' mirrored_world))
       = [\<lparr>path = ''src/app.js'', isChanged = False, previousModified = None\<rparr>,
          \<lparr>path = ''src/app.js'', isChanged = True, previousModified = Some 1000\<rparr>]
   \<and> tree mirrored_world ''src/app.js'' = Some (File ''const x=1;'' 1000)
   \<and> tree (snd (downloadAndExtractSourcemap md5_known 2000 example_net ''https://spaces.im/dup.map'' mirrored_world))
         ''src/app.js'' = Some (File ''const x=2;'' 2000)"
  by code_simp

text \<open>
  The second entry need not spell the path as the first does. In the working directory
  \<open>/home/runner/spaces-tracker\<close> the sources \<open>webpack:///src/app.js\<close> and
  \<open>webpack:///../spaces-tracker/src/app.js\<close> give two local paths for one file: the
  first entry is emitted unchanged, the second rewrites the file through the other path.
\<close>

lemma alias_entry_rewrites:
  "files (fst (downloadAndExtractSourcemap md5_known 2000 example_net ''https://spaces.im/alias.map'' mirrored_world))
       = [\<lparr>path = ''src/app.js'', isChanged = False, previousModified = None\<rparr>,
          \<lparr>path = ''../spaces-tracker/src/app.js'', isChanged = True, previousModified = Some 1000\<rparr>]
   \<and> journal (snd (downloadAndExtractSourcemap md5_known 2000 example_net ''https://spaces.im/alias.map'' mirrored_world))
       = [Mkdir ''../spaces-tracker/src'', WriteFile ''../spaces-tracker/src/app.js'' ''const x=2;'']
   \<and> lookup (tree (snd (downloadAndExtractSourcemap md5_known 2000 example_net ''https://spaces.im/alias.map'' mirrored_world)))
         ''src/app.js'' = Some (File ''const x=2;'' 2000)"
  by code_simp

text \<open>
  C6, amended: for an entry whose local file exists with a content of the same hash,
  processing the entry leaves the whole state as it was (no call to \<open>mkdir\<close> or
  \<open>writeFile\<close> is issued, the tree is the same) and emits the outcome with
  \<open>isChanged = false\<close>. A file of the mirror, given by its canonical path \<open>p\<close>, is left
  as it is by a whole job when every entry of the sourcemap that has a content and whose
  local path names that file, however the path is spelled, carries a content of the same
  hash.
\<close>

theorem unchanged_entry_touches_nothing:
  "(fileExists (cwd w) (tree w) (localPath_of sp)
      \<and> fs_readFile (cwd w) (tree w) (localPath_of sp) = Inr existing
      \<and> getFileHash H content = getFileHash H existing \<longrightarrow>
        extract_entry H now sp content w
          = (w, Inr \<lparr>path = localPath_of sp, isChanged = False, previousModified = None\<rparr>))
   \<and> (lookup (tree w) p = Some (File held m) \<and> resolve (cwd w) p = p
      \<and> (\<forall>st sm srcs cs. net u = Response st (JsonDoc sm) \<and> sources sm = Some srcs \<and> sourcesContent sm = Some cs
            \<longrightarrow> (\<forall>e \<in> set (zip srcs cs). \<forall>c.
                    snd e = Some c \<and> c \<noteq> [] \<and> resolve (cwd w) (localPath_of (fst e)) = p
                  \<longrightarrow> getFileHash H c = getFileHash H held)) \<longrightarrow>
        lookup (tree (snd (downloadAndExtractSourcemap H now net u w))) p = Some (File held m))"
  using entry_unchanged[of w sp existing H content now] job_frame[of w p held m net u H now]
  unfolding getFileHash_def by blast

theorem unchanged_entry_touches_nothing_witness:
  "extract_entry md5_known 2000 ''webpack:///src/app.js'' ''const x=1;'' mirrored_world
     = (mirrored_world, Inr \<lparr>path = localPath_of ''webpack:///src/app.js'', isChanged = False, previousModified = None\<rparr>)
   \<and> lookup (tree mirrored_world) ''src/app.js'' = Some (File ''const x=1;'' 1000)
   \<and> lookup (tree (snd (downloadAndExtractSourcemap md5_known 2000 example_net ''https://spaces.im/foo.map'' mirrored_world)))
         ''src/app.js'' = Some (File ''const x=1;'' 1000)"
proof -
  let ?sp = "''webpack:///src/app.js''"
  note t = unchanged_entry_touches_nothing[where w = mirrored_world and sp = ?sp
      and existing = "''const x=1;''" and H = md5_known and content = "''const x=1;''" and now = 2000
      and p = "''src/app.js''" and held = "''const x=1;''" and m = 1000 and net = example_net
      and u = "''https://spaces.im/foo.map''"]
  have lp: "localPath_of ?sp = ''src/app.js''" by code_simp
  have ex: "fileExists (cwd mirrored_world) (tree mirrored_world) (localPath_of ?sp)" by code_simp
  have rd: "fs_readFile (cwd mirrored_world) (tree mirrored_world) (localPath_of ?sp) = Inr ''const x=1;''"
    by code_simp
  from t ex rd have a: "extract_entry md5_known 2000 ?sp ''const x=1;'' mirrored_world
     = (mirrored_world, Inr \<lparr>path = localPath_of ?sp, isChanged = False, previousModified = None\<rparr>)"
    by blast
  have lk: "lookup (tree mirrored_world) ''src/app.js'' = Some (File ''const x=1;'' 1000)" by code_simp
  have same: "\<forall>st sm srcs cs. example_net ''https://spaces.im/foo.map'' = Response st (JsonDoc sm)
        \<and> sources sm = Some srcs \<and> sourcesContent sm = Some cs
      \<longrightarrow> (\<forall>e \<in> set (zip srcs cs). \<forall>c.
              snd e = Some c \<and> c \<noteq> [] \<and> resolve (cwd mirrored_world) (localPath_of (fst e)) = ''src/app.js''
            \<longrightarrow> getFileHash md5_known c = getFileHash md5_known ''const x=1;'')"
    by (auto simp: example_net_def)
  have canon: "resolve (cwd mirrored_world) ''src/app.js'' = ''src/app.js''" by code_simp
  from t lk canon same have b: "lookup (tree (snd (downloadAndExtractSourcemap md5_known 2000 example_net
      ''https://spaces.im/foo.map'' mirrored_world))) ''src/app.js'' = Some (File ''const x=1;'' 1000)"
    by blast
  from a lk b show ?thesis by (intro conjI)
qed

section \<open>What the report is built from\<close>

lemma collect_failed_files: "\<not> success r \<Longrightarrow> collect (r\<lparr>files := fs'\<rparr>) st = collect r st"
  by (simp add: collect_def)

lemma aggregate_failed_files:
  "\<not> success r \<Longrightarrow> aggregate (rs1 @ r\<lparr>files := fs'\<rparr> # rs2) = aggregate (rs1 @ r # rs2)"
  by (simp add: aggregate_def collect_failed_files)

lemma report_failed_files:
  "\<not> success r \<Longrightarrow> report collate now (rs1 @ r\<lparr>files := fs'\<rparr> # rs2) w = report collate now (rs1 @ r # rs2) w"
  by (simp add: report_def aggregate_failed_files)

lemma map_set_keys: "fst ` set (map_set k v m) = insert k (fst ` set m)"
  by (induction m) auto

lemma map_set_distinct: "distinct (map fst m) \<Longrightarrow> distinct (map fst (map_set k v m))"
  by (induction m) (auto simp: map_set_keys)

lemma fold_map_set_keys:
  "fst ` set (fold (\<lambda>file m. map_set (path file) (previousModified file) m) fs m)
     = fst ` set m \<union> path ` set fs"
  by (induction fs arbitrary: m) (auto simp: map_set_keys)

lemma fold_map_set_distinct:
  "distinct (map fst m)
    \<Longrightarrow> distinct (map fst (fold (\<lambda>file m. map_set (path file) (previousModified file) m) fs m))"
  by (induction fs arbitrary: m) (auto simp: map_set_distinct)

lemma collect_keys:
  "fst ` set (changed (collect r st))
     = fst ` set (changed st) \<union> (if success r then path ` {f \<in> set (files r). isChanged f} else {})"
  by (simp add: collect_def Let_def fold_map_set_keys)

lemma collect_distinct: "distinct (map fst (changed st)) \<Longrightarrow> distinct (map fst (changed (collect r st)))"
  by (simp add: collect_def Let_def fold_map_set_distinct)

lemma fold_collect_keys:
  "fst ` set (changed (fold collect rs st))
     = fst ` set (changed st) \<union> {path f |r f. r \<in> set rs \<and> success r \<and> f \<in> set (files r) \<and> isChanged f}"
proof (induction rs arbitrary: st)
  case Nil
  then show ?case by simp
next
  case (Cons r rs)
  have "fst ` set (changed (fold collect (r # rs) st))
      = fst ` set (changed (collect r st))
        \<union> {path f |r f. r \<in> set rs \<and> success r \<and> f \<in> set (files r) \<and> isChanged f}"
    using Cons.IH[of "collect r st"] by simp
  also have "\<dots> = fst ` set (changed st)
        \<union> {path f |r' f. r' \<in> set (r # rs) \<and> success r' \<and> f \<in> set (files r') \<and> isChanged f}"
    unfolding collect_keys by auto
  finally show ?case .
qed

lemma fold_collect_distinct:
  "distinct (map fst (changed st)) \<Longrightarrow> distinct (map fst (changed (fold collect rs st)))"
  by (induction rs arbitrary: st) (auto simp: collect_distinct)

lemma aggregate_keys:
  "fst ` set (changed (aggregate rs))
     = {path f |r f. r \<in> set rs \<and> success r \<and> f \<in> set (files r) \<and> isChanged f}"
  by (simp add: aggregate_def fold_collect_keys)

lemma aggregate_distinct: "distinct (map fst (changed (aggregate rs)))"
  by (simp add: aggregate_def fold_collect_distinct)

lemma fold_collect_failed:
  "failed (fold collect rs st) = failed st @ map (\<lambda>r. (url r, error r)) (filter (\<lambda>r. \<not> success r) rs)"
  by (induction rs arbitrary: st) (auto simp: collect_def Let_def)

lemma aggregate_failed:
  "failed (aggregate rs) = map (\<lambda>r. (url r, error r)) (filter (\<lambda>r. \<not> success r) rs)"
  by (simp add: aggregate_def fold_collect_failed)

lemma aggregate_count:
  "length (changed (aggregate rs))
     = card {path f |r f. r \<in> set rs \<and> success r \<and> f \<in> set (files r) \<and> isChanged f}"
proof -
  have "length (changed (aggregate rs)) = length (map fst (changed (aggregate rs)))" by simp
  also have "\<dots> = card (set (map fst (changed (aggregate rs))))"
    using aggregate_distinct[of rs] by (simp only: distinct_card)
  also have "\<dots> = card {path f |r f. r \<in> set rs \<and> success r \<and> f \<in> set (files r) \<and> isChanged f}"
    using aggregate_keys[of rs] by simp
  finally show ?thesis .
qed

lemma clash_job:
  "fst (downloadAndExtractSourcemap md5_known 2000 example_net ''https://spaces.im/clash.map'' empty_world)
     = \<lparr>url = ''https://spaces.im/clash.map'', success = False,
        files = [\<lparr>path = ''a'', isChanged = True, previousModified = None\<rparr>],
        error = Some (''EEXIST: file already exists, mkdir '' @ quoted ''a'')\<rparr>"
  by code_simp

text \<open>
  C10: the files of an outcome with \<open>success = false\<close> play no part in the change
  set or in the report: replacing them by any other list changes neither. The paths of
  the change set are exactly the paths of the changed files of the successful outcomes.
  Writes made before the failure stay: the sourcemap of \<open>clash.map\<close> writes \<open>a\<close>, then
  fails on \<open>a/b\<close>; the outcome has \<open>success = false\<close> and lists \<open>a\<close>, the file \<open>a\<close>
  is in the mirror, and the change set built from the outcome is empty.
\<close>

theorem failed_outcome_files_not_reported:
  "(\<not> success r \<longrightarrow>
      aggregate (before @ r\<lparr>files := others\<rparr> # after) = aggregate (before @ r # after)
      \<and> report collate now (before @ r\<lparr>files := others\<rparr> # after) w = report collate now (before @ r # after) w)
   \<and> fst ` set (changed (aggregate rs))
       = {path f |r f. r \<in> set rs \<and> success r \<and> f \<in> set (files r) \<and> isChanged f}
   \<and> (case downloadAndExtractSourcemap md5_known 2000 example_net ''https://spaces.im/clash.map'' empty_world of
        (r, w') \<Rightarrow>
          \<not> success r
          \<and> files r = [\<lparr>path = ''a'', isChanged = True, previousModified = None\<rparr>]
          \<and> tree w' ''a'' = Some (File ''const x=1;'' 2000)
          \<and> changed (aggregate [r]) = [])"
proof -
  have a: "\<not> success r \<longrightarrow>
      aggregate (before @ r\<lparr>files := others\<rparr> # after) = aggregate (before @ r # after)
      \<and> report collate now (before @ r\<lparr>files := others\<rparr> # after) w = report collate now (before @ r # after) w"
    using aggregate_failed_files[of r before others after] report_failed_files[of r collate now before others after w]
    by blast
  have c: "case downloadAndExtractSourcemap md5_known 2000 example_net ''https://spaces.im/clash.map'' empty_world of
        (r, w') \<Rightarrow>
          \<not> success r
          \<and> files r = [\<lparr>path = ''a'', isChanged = True, previousModified = None\<rparr>]
          \<and> tree w' ''a'' = Some (File ''const x=1;'' 2000)
          \<and> changed (aggregate [r]) = []"
    by code_simp
  from a aggregate_keys[of rs] c show ?thesis by (intro conjI)
qed

theorem failed_outcome_files_not_reported_witness:
  "\<not> success (fst (downloadAndExtractSourcemap md5_known 2000 example_net ''https://spaces.im/clash.map'' empty_world))
   \<and> aggregate [(fst (downloadAndExtractSourcemap md5_known 2000 example_net ''https://spaces.im/clash.map'' empty_world))
                  \<lparr>files := []\<rparr>]
     = aggregate [fst (downloadAndExtractSourcemap md5_known 2000 example_net ''https://spaces.im/clash.map'' empty_world)]"
proof -
  let ?r = "fst (downloadAndExtractSourcemap md5_known 2000 example_net ''https://spaces.im/clash.map'' empty_world)"
  have f: "\<not> success ?r" by (simp add: clash_job)
  from failed_outcome_files_not_reported[where r = ?r and before = "[]" and after = "[]" and others = "[]"] f
  have "aggregate ([] @ ?r\<lparr>files := []\<rparr> # []) = aggregate ([] @ ?r # [])" by blast
  with f show ?thesis by simp
qed

section \<open>Writing the report\<close>

lemma report_names:
  "path_dirname ''commit-message.txt'' = ''.''" "path_dirname ''telegram-message.txt'' = ''.''"
  "strip_slash ''commit-message.txt'' = ''commit-message.txt''"
  "strip_slash ''telegram-message.txt'' = ''telegram-message.txt''"
  by code_simp+

lemma lookup_dot: "lookup t ''.'' = Some Dir"
  by (simp add: lookup_def strip_slash_def)

lemma lookup_update_unrelated:
  "strip_slash p \<noteq> q \<Longrightarrow> lookup (t(q \<mapsto> n)) p = lookup t p"
  by (simp add: lookup_def Let_def)

lemma write_report_ok:
  assumes "lookup (tree w) name \<noteq> Some Dir" "resolve (cwd w) name = name"
    "name \<noteq> []" "last name \<noteq> CHR ''/''" "path_dirname name = ''.''"
  shows "write_report now name text w
     = (w\<lparr>tree := (tree w)(name \<mapsto> File text now), journal := journal w @ [WriteFile name text]\<rparr>, None)"
  using assms by (simp add: write_report_def fs_writeFile_def lookup_dot resolve_dot)

lemma report_nothing:
  assumes "length (changed (aggregate rs)) = 0" "length (failed (aggregate rs)) = 0"
  shows "report collate now rs w = (w, Exited 0)"
  using assms by (simp add: report_def Let_def)

lemma report_both:
  assumes some: "0 < length (changed (aggregate rs)) \<or> 0 < length (failed (aggregate rs))"
    and c: "lookup (tree w) ''commit-message.txt'' \<noteq> Some Dir"
    and t: "lookup (tree w) ''telegram-message.txt'' \<noteq> Some Dir"
  shows "report collate now rs w
     = (w\<lparr>tree := (tree w)
            (''commit-message.txt'' \<mapsto> File (commitMessage_of (report_lines collate now (aggregate rs))) now,
             ''telegram-message.txt'' \<mapsto> File (telegramMessage_of (report_lines collate now (aggregate rs))) now),
          journal := journal w @
            [WriteFile ''commit-message.txt'' (commitMessage_of (report_lines collate now (aggregate rs))),
             WriteFile ''telegram-message.txt'' (telegramMessage_of (report_lines collate now (aggregate rs)))]\<rparr>,
        Returned)"
proof -
  let ?lines = "report_lines collate now (aggregate rs)"
  let ?cm = "commitMessage_of ?lines" and ?tm = "telegramMessage_of ?lines"
  let ?w1 = "w\<lparr>tree := (tree w)(''commit-message.txt'' \<mapsto> File ?cm now),
               journal := journal w @ [WriteFile ''commit-message.txt'' ?cm]\<rparr>"
  have first: "write_report now ''commit-message.txt'' ?cm w = (?w1, None)"
    using write_report_ok[OF c resolve_commit, of now ?cm] by (simp add: report_names)
  have "lookup (tree ?w1) ''telegram-message.txt'' = lookup (tree w) ''telegram-message.txt''"
    by (simp add: lookup_update_unrelated report_names)
  with t have t1: "lookup (tree ?w1) ''telegram-message.txt'' \<noteq> Some Dir" by simp
  have second: "write_report now ''telegram-message.txt'' ?tm ?w1
      = (?w1\<lparr>tree := (tree ?w1)(''telegram-message.txt'' \<mapsto> File ?tm now),
             journal := journal ?w1 @ [WriteFile ''telegram-message.txt'' ?tm]\<rparr>, None)"
    using write_report_ok[OF t1 resolve_telegram, of now ?tm] by (simp add: report_names)
  from some first second show ?thesis
    by (simp add: report_def Let_def)
qed

lemma report_returned:
  assumes "report collate now rs w = (w', Returned)"
  shows "(0 < length (changed (aggregate rs)) \<or> 0 < length (failed (aggregate rs)))
    \<and> tree w' = (tree w)
            (''commit-message.txt'' \<mapsto> File (commitMessage_of (report_lines collate now (aggregate rs))) now,
             ''telegram-message.txt'' \<mapsto> File (telegramMessage_of (report_lines collate now (aggregate rs))) now)"
proof -
  let ?lines = "report_lines collate now (aggregate rs)"
  let ?cm = "commitMessage_of ?lines" and ?tm = "telegramMessage_of ?lines"
  from assms have some: "0 < length (changed (aggregate rs)) \<or> 0 < length (failed (aggregate rs))"
    by (auto simp: report_def Let_def split: if_splits)
  obtain w1 e1 where first: "write_report now ''commit-message.txt'' ?cm w = (w1, e1)"
    by (cases "write_report now ''commit-message.txt'' ?cm w")
  obtain w2 e2 where second: "write_report now ''telegram-message.txt'' ?tm w1 = (w2, e2)"
    by (cases "write_report now ''telegram-message.txt'' ?tm w1")
  from assms some first second have ok: "e1 = None" "e2 = None" "w' = w2"
    by (auto simp: report_def Let_def split: option.splits)
  from first ok(1) have t1: "tree w1 = (tree w)(''commit-message.txt'' \<mapsto> File ?cm now)"
    by (auto simp: write_report_def fs_writeFile_def resolve_commit resolve_telegram split: if_splits)
  from second ok(2) have t2: "tree w2 = (tree w1)(''telegram-message.txt'' \<mapsto> File ?tm now)"
    by (auto simp: write_report_def fs_writeFile_def resolve_commit resolve_telegram split: if_splits)
  from some t1 t2 ok(3) show ?thesis by simp
qed

lemma processInBatches_single:
  assumes "0 < bs"
  shows "processInBatches [x] bs p finish s
     = Some ([fst (p x s)], snd (p x s), [Started 0, Finished 0, Progress 1 1])"
proof -
  have tk: "take bs [x] = [x]" using assms by (cases bs) simp_all
  have pa: "promise_all p finish 0 [x] s = ([fst (p x s)], snd (p x s), [Started 0, Finished 0])"
    by (simp add: promise_all_def case_prod_beta)
  have m: "min bs (Suc 0) = Suc 0" using assms by simp
  have first: "batches_loop [x] bs p finish 0 [] s []
      = batches_loop [x] bs p finish bs [fst (p x s)] (snd (p x s)) [Started 0, Finished 0, Progress 1 1]"
    by (subst batches_loop.simps) (simp add: tk pa m)
  have last: "batches_loop [x] bs p finish bs [fst (p x s)] (snd (p x s)) [Started 0, Finished 0, Progress 1 1]
      = Some ([fst (p x s)], snd (p x s), [Started 0, Finished 0, Progress 1 1])"
    using assms by (subst batches_loop.simps) simp
  from first last show ?thesis by (simp add: processInBatches_def)
qed

lemma show_nat_1: "show_nat (Suc 0) = ''1''"
  by (simp add: show_nat.simps digit_char_def)

lemma foo_job:
  "downloadAndExtractSourcemap H now example_net ''https://spaces.im/foo.map'' empty_world
     = (\<lparr>url = ''https://spaces.im/foo.map'', success = True,
         files = [\<lparr>path = ''src/app.js'', isChanged = True, previousModified = None\<rparr>],
         error = None\<rparr>,
        \<lparr>tree = [''src'' \<mapsto> Dir, ''src/app.js'' \<mapsto> File ''const x=1;'' now],
         journal = [Mkdir ''src'', WriteFile ''src/app.js'' ''const x=1;''],
         cwd = example_cwd\<rparr>)"
  by (simp add: downloadAndExtractSourcemap_def foo_answer response_ok_def scenario_entry)

lemma foo_aggregate:
  "aggregate [\<lparr>url = ''https://spaces.im/foo.map'', success = True,
         files = [\<lparr>path = ''src/app.js'', isChanged = True, previousModified = None\<rparr>],
         error = None\<rparr>]
     = \<lparr>changed = [(''src/app.js'', None)], failed = []\<rparr>"
  by (simp add: aggregate_def collect_def)

lemma foo_lines:
  "report_lines collate now \<lparr>changed = [(''src/app.js'', None)], failed = []\<rparr>
     = [''chore: Changed 1 file(s)'', [CHR 0x0A] @ ''Changed files (1):'', [CHR 0x0A] @ ''<pre>'',
        ''src/app.js (new)'', ''</pre>'']"
  by (simp add: report_lines_def show_nat_1 changed_line_def)

lemma foo_commit:
  "commitMessage_of [''chore: Changed 1 file(s)'', [CHR 0x0A] @ ''Changed files (1):'', [CHR 0x0A] @ ''<pre>'',
        ''src/app.js (new)'', ''</pre>'']
     = ''chore: Changed 1 file(s)'' @ [CHR 0x0A, CHR 0x0A] @ ''Changed files (1):'' @ [CHR 0x0A, CHR 0x0A]
         @ ''src/app.js (new)''"
  by code_simp

lemma foo_telegram:
  "telegramMessage_of [''chore: Changed 1 file(s)'', [CHR 0x0A] @ ''Changed files (1):'', [CHR 0x0A] @ ''<pre>'',
        ''src/app.js (new)'', ''</pre>'']
     = [CHR 0x0A] @ ''Changed files (1):'' @ [CHR 0x0A, CHR 0x0A] @ ''<pre>'' @ [CHR 0x0A]
         @ ''src/app.js (new)'' @ [CHR 0x0A] @ ''</pre>''"
  by code_simp

text \<open>
  C3, amended: with \<open>links.json = ["/foo"]\<close>, the sourcemap of \<open>foo.map\<close> and an empty
  mirror, for every digest function, collation, clock and completion order: the run
  creates the directory \<open>src\<close> and writes one source file, \<open>src/app.js\<close>; the outcome
  lists it with \<open>isChanged = true\<close> and no previous time; the header is
  \<open>chore: Changed 1 file(s)\<close> and the line of the file is \<open>src/app.js (new)\<close>; the two
  reports are then written.
\<close>

theorem new_file_scenario:
  "main H collate now example_net finish [''/foo''] empty_world
     = Some ([\<lparr>url = ''https://spaces.im/foo.map'', success = True,
               files = [\<lparr>path = ''src/app.js'', isChanged = True, previousModified = None\<rparr>],
               error = None\<rparr>],
             \<lparr>tree = [''src'' \<mapsto> Dir, ''src/app.js'' \<mapsto> File ''const x=1;'' now,
                      ''commit-message.txt'' \<mapsto>
                        File (''chore: Changed 1 file(s)'' @ [CHR 0x0A, CHR 0x0A] @ ''Changed files (1):''
                              @ [CHR 0x0A, CHR 0x0A] @ ''src/app.js (new)'') now,
                      ''telegram-message.txt'' \<mapsto>
                        File ([CHR 0x0A] @ ''Changed files (1):'' @ [CHR 0x0A, CHR 0x0A] @ ''<pre>'' @ [CHR 0x0A]
                              @ ''src/app.js (new)'' @ [CHR 0x0A] @ ''</pre>'') now],
              journal = [Mkdir ''src'', WriteFile ''src/app.js'' ''const x=1;'',
                         WriteFile ''commit-message.txt''
                           (''chore: Changed 1 file(s)'' @ [CHR 0x0A, CHR 0x0A] @ ''Changed files (1):''
                              @ [CHR 0x0A, CHR 0x0A] @ ''src/app.js (new)''),
                         WriteFile ''telegram-message.txt''
                           ([CHR 0x0A] @ ''Changed files (1):'' @ [CHR 0x0A, CHR 0x0A] @ ''<pre>'' @ [CHR 0x0A]
                              @ ''src/app.js (new)'' @ [CHR 0x0A] @ ''</pre>'')],
              cwd = example_cwd\<rparr>,
             Returned)
   \<and> report_lines collate now (aggregate [\<lparr>url = ''https://spaces.im/foo.map'', success = True,
               files = [\<lparr>path = ''src/app.js'', isChanged = True, previousModified = None\<rparr>],
               error = None\<rparr>])
       = [''chore: Changed 1 file(s)'', [CHR 0x0A] @ ''Changed files (1):'', [CHR 0x0A] @ ''<pre>'',
          ''src/app.js (new)'', ''</pre>'']"
proof -
  let ?r = "\<lparr>url = ''https://spaces.im/foo.map'', success = True,
               files = [\<lparr>path = ''src/app.js'', isChanged = True, previousModified = None\<rparr>],
               error = None\<rparr>"
  let ?w1 = "\<lparr>tree = [''src'' \<mapsto> Dir, ''src/app.js'' \<mapsto> File ''const x=1;'' now],
         journal = [Mkdir ''src'', WriteFile ''src/app.js'' ''const x=1;''], cwd = example_cwd\<rparr>"
  have batch: "processInBatches [''https://spaces.im/foo.map''] CONCURRENCY
      (downloadAndExtractSourcemap H now example_net) finish empty_world
      = Some ([?r], ?w1, [Started 0, Finished 0, Progress 1 1])"
    using processInBatches_single[of CONCURRENCY "''https://spaces.im/foo.map''"
        "downloadAndExtractSourcemap H now example_net" finish empty_world]
    by (simp add: CONCURRENCY_def foo_job)
  have some: "0 < length (changed (aggregate [?r])) \<or> 0 < length (failed (aggregate [?r]))"
    by (simp add: foo_aggregate)
  have c: "lookup (tree ?w1) ''commit-message.txt'' \<noteq> Some Dir"
    by (simp add: lookup_def report_names)
  have t: "lookup (tree ?w1) ''telegram-message.txt'' \<noteq> Some Dir"
    by (simp add: lookup_def report_names)
  have lines: "report_lines collate now (aggregate [?r])
       = [''chore: Changed 1 file(s)'', [CHR 0x0A] @ ''Changed files (1):'', [CHR 0x0A] @ ''<pre>'',
          ''src/app.js (new)'', ''</pre>'']"
    by (simp only: foo_aggregate foo_lines)
  from report_both[OF some c t, of collate now]
  have rep: "report collate now [?r] ?w1
     = (\<lparr>tree = [''src'' \<mapsto> Dir, ''src/app.js'' \<mapsto> File ''const x=1;'' now,
                      ''commit-message.txt'' \<mapsto>
                        File (''chore: Changed 1 file(s)'' @ [CHR 0x0A, CHR 0x0A] @ ''Changed files (1):''
                              @ [CHR 0x0A, CHR 0x0A] @ ''src/app.js (new)'') now,
                      ''telegram-message.txt'' \<mapsto>
                        File ([CHR 0x0A] @ ''Changed files (1):'' @ [CHR 0x0A, CHR 0x0A] @ ''<pre>'' @ [CHR 0x0A]
                              @ ''src/app.js (new)'' @ [CHR 0x0A] @ ''</pre>'') now],
              journal = [Mkdir ''src'', WriteFile ''src/app.js'' ''const x=1;'',
                         WriteFile ''commit-message.txt''
                           (''chore: Changed 1 file(s)'' @ [CHR 0x0A, CHR 0x0A] @ ''Changed files (1):''
                              @ [CHR 0x0A, CHR 0x0A] @ ''src/app.js (new)''),
                         WriteFile ''telegram-message.txt''
                           ([CHR 0x0A] @ ''Changed files (1):'' @ [CHR 0x0A, CHR 0x0A] @ ''<pre>'' @ [CHR 0x0A]
                              @ ''src/app.js (new)'' @ [CHR 0x0A] @ ''</pre>'')],
              cwd = example_cwd\<rparr>, Returned)"
    unfolding lines foo_commit foo_telegram by simp
  have "main H collate now example_net finish [''/foo''] empty_world
      = (case report collate now [?r] ?w1 of (w2, e) \<Rightarrow> Some ([?r], w2, e))"
    using batch by (simp add: main_def HOST_def revisions_not_found)
  with rep lines show ?thesis by simp
qed

theorem new_file_scenario_witness:
  "map_option fst foo_run
     = Some [\<lparr>url = ''https://spaces.im/foo.map'', success = True,
              files = [\<lparr>path = ''src/app.js'', isChanged = True, previousModified = None\<rparr>],
              error = None\<rparr>]
   \<and> map_option (\<lambda>run. snd (snd run)) foo_run = Some Returned"
  using new_file_scenario[of md5_known byte_order 2000 as_started]
  by (simp add: foo_run_def)

text \<open>
  C3, as stated, fails: \<open>path.join('.', 'src/app.js')\<close> is \<open>src/app.js\<close>, without a
  leading \<open>./\<close>. That is the path of the outcome, and the line of the report is
  \<open>src/app.js (new)\<close>; no line reads \<open>./src/app.js (new)\<close>.
\<close>

theorem new_file_path_counterexample:
  "map path (files (hd (fst (the foo_run)))) = [''src/app.js'']
   \<and> ''./src/app.js (new)'' \<notin> set (report_lines byte_order 2000 (aggregate (fst (the foo_run))))
   \<and> report_lines byte_order 2000 (aggregate (fst (the foo_run))) ! 3 = ''src/app.js (new)''"
  by code_simp

lemma join_with_Cons: "xs \<noteq> [] \<Longrightarrow> join_with sep (x # xs) = x @ sep @ join_with sep xs"
  by (cases xs) simp_all

lemma join_with_mem: "x \<in> set xs \<Longrightarrow> \<exists>a b. join_with sep xs = a @ x @ b"
proof (induction sep xs rule: join_with.induct)
  case (1 sep)
  then show ?case by simp
next
  case (2 sep y)
  then have "join_with sep [y] = [] @ x @ []" by simp
  then show ?case by blast
next
  case (3 sep y z zs)
  show ?case
  proof (cases "x = y")
    case True
    then have "join_with sep (y # z # zs) = [] @ x @ (sep @ join_with sep (z # zs))" by simp
    then show ?thesis by blast
  next
    case False
    with 3 obtain a b where "join_with sep (z # zs) = a @ x @ b" by auto
    then have "join_with sep (y # z # zs) = (y @ sep @ a) @ x @ b" by simp
    then show ?thesis by blast
  qed
qed

lemma report_lines_marker:
  assumes "0 < length (changed st) \<or> 0 < length (failed st)"
  shows "[CHR 0x0A] @ ''<pre>'' \<in> set (tl (report_lines collate now st))"
  using assms by (auto simp: report_lines_def)

text \<open>
  C7, as stated, fails in its converse. The reports are written into the directory that
  is also the root of the mirror. The sourcemap of \<open>reports.map\<close> names the source
  \<open>commit-message.txt/x.js\<close>, so extraction creates the directory \<open>commit-message.txt\<close>;
  one file has changed, the write of the commit message throws, \<open>main\<close> is rejected, and
  neither report file is written.
\<close>

theorem report_only_on_change_or_failure_counterexample:
  "0 < length (changed (aggregate (fst (the reports_run))))
   \<and> snd (snd (the reports_run))
       = Rejected (''EISDIR: illegal operation on a directory, open '' @ quoted ''commit-message.txt'')
   \<and> tree (fst (snd (the reports_run))) ''commit-message.txt'' = Some Dir
   \<and> tree (fst (snd (the reports_run))) ''telegram-message.txt'' = None"
  by code_simp

text \<open>
  C7, amended: \<open>N\<close> is the number of distinct paths of changed files in successful
  outcomes, the failures are the unsuccessful outcomes in order. With \<open>N = 0\<close> and no
  failure, no call is made, the state is untouched and the process exits with code 0.
  With \<open>N > 0\<close> or a failure, and neither report name a directory of the working
  tree, \<open>commit-message.txt\<close> and then \<open>telegram-message.txt\<close> are written and \<open>main\<close>
  returns.
\<close>

theorem report_only_on_change_or_failure:
  "(length (changed (aggregate rs)) = 0 \<and> length (failed (aggregate rs)) = 0 \<longrightarrow>
      report collate now rs w = (w, Exited 0))
   \<and> length (changed (aggregate rs))
       = card {path f |r f. r \<in> set rs \<and> success r \<and> f \<in> set (files r) \<and> isChanged f}
   \<and> failed (aggregate rs) = map (\<lambda>r. (url r, error r)) (filter (\<lambda>r. \<not> success r) rs)
   \<and> ((0 < length (changed (aggregate rs)) \<or> 0 < length (failed (aggregate rs)))
        \<and> lookup (tree w) ''commit-message.txt'' \<noteq> Some Dir
        \<and> lookup (tree w) ''telegram-message.txt'' \<noteq> Some Dir \<longrightarrow>
      report collate now rs w
        = (w\<lparr>tree := (tree w)
               (''commit-message.txt'' \<mapsto> File (commitMessage_of (report_lines collate now (aggregate rs))) now,
                ''telegram-message.txt'' \<mapsto> File (telegramMessage_of (report_lines collate now (aggregate rs))) now),
             journal := journal w @
               [WriteFile ''commit-message.txt'' (commitMessage_of (report_lines collate now (aggregate rs))),
                WriteFile ''telegram-message.txt'' (telegramMessage_of (report_lines collate now (aggregate rs)))]\<rparr>,
           Returned))"
  using report_nothing[of rs collate now w] report_both[of rs w collate now]
    aggregate_count[of rs] aggregate_failed[of rs]
  by blast

lemma unchanged_not_reported:
  "aggregate [\<lparr>url = ''https://spaces.im/foo.map'', success = True,
        files = [\<lparr>path = ''src/app.js'', isChanged = False, previousModified = None\<rparr>],
        error = None\<rparr>] = \<lparr>changed = [], failed = []\<rparr>"
  by (simp add: aggregate_def collect_def)

lemma missing_reported:
  "aggregate [\<lparr>url = ''https://spaces.im/missing.map'', success = False, files = [], error = Some ''HTTP 404''\<rparr>]
     = \<lparr>changed = [], failed = [(''https://spaces.im/missing.map'', Some ''HTTP 404'')]\<rparr>"
  by (simp add: aggregate_def collect_def)

theorem report_only_on_change_or_failure_witness:
  "report byte_order 2000
      [\<lparr>url = ''https://spaces.im/foo.map'', success = True,
        files = [\<lparr>path = ''src/app.js'', isChanged = False, previousModified = None\<rparr>],
        error = None\<rparr>] mirrored_world = (mirrored_world, Exited 0)
   \<and> snd (report byte_order 2000
      [\<lparr>url = ''https://spaces.im/missing.map'', success = False, files = [], error = Some ''HTTP 404''\<rparr>]
      empty_world) = Returned"
proof -
  let ?same = "\<lparr>url = ''https://spaces.im/foo.map'', success = True,
        files = [\<lparr>path = ''src/app.js'', isChanged = False, previousModified = None\<rparr>],
        error = None\<rparr>"
  let ?missing = "\<lparr>url = ''https://spaces.im/missing.map'', success = False, files = [], error = Some ''HTTP 404''\<rparr>"
  have none: "length (changed (aggregate [?same])) = 0 \<and> length (failed (aggregate [?same])) = 0"
    by (simp add: unchanged_not_reported)
  from report_only_on_change_or_failure[of "[?same]" byte_order 2000 mirrored_world] none
  have a: "report byte_order 2000 [?same] mirrored_world = (mirrored_world, Exited 0)" by blast
  have some: "(0 < length (changed (aggregate [?missing])) \<or> 0 < length (failed (aggregate [?missing])))
      \<and> lookup (tree empty_world) ''commit-message.txt'' \<noteq> Some Dir
      \<and> lookup (tree empty_world) ''telegram-message.txt'' \<noteq> Some Dir"
    by (simp add: missing_reported lookup_def report_names empty_world_def)
  from report_only_on_change_or_failure[of "[?missing]" byte_order 2000 empty_world] some
  have "snd (report byte_order 2000 [?missing] empty_world) = Returned" by simp
  with a show ?thesis by simp
qed

text \<open>
  C2, as stated, fails: the text written to \<open>telegram-message.txt\<close> keeps the block
  markers. For a run with one failed download it holds \<open><pre>\<close> and \<open></pre>\<close>, and
  differs from the lines without the header with the markers stripped.
\<close>

theorem telegram_markers_counterexample:
  "tree (fst (snd (the missing_run))) ''telegram-message.txt''
     = Some (File ([CHR 0x0A] @ ''Failed downloads (1):'' @ [CHR 0x0A, CHR 0x0A] @ ''<pre>'' @ [CHR 0x0A]
                   @ ''https://spaces.im/missing.map (HTTP 404)'' @ [CHR 0x0A] @ ''</pre>'') 2000)
   \<and> tree (fst (snd (the missing_run))) ''telegram-message.txt''
     \<noteq> Some (File (strip_markers (join_with [CHR 0x0A]
                      (tl (report_lines byte_order 2000 (aggregate (fst (the missing_run))))))) 2000)"
  by code_simp

text \<open>
  C2, amended: in every run that writes the reports, \<open>telegram-message.txt\<close> holds the
  lines without the header, joined by newlines, with the block markers kept (the opening
  marker occurs in it); \<open>commit-message.txt\<close> holds all the lines, joined by newlines,
  with the markers stripped; all the lines joined are the header, a newline, and the text
  of \<open>telegram-message.txt\<close>.
\<close>

theorem report_renderings:
  "report collate now rs w = (w', Returned) \<longrightarrow>
     tree w' ''telegram-message.txt''
       = Some (File (join_with [CHR 0x0A] (tl (report_lines collate now (aggregate rs)))) now)
     \<and> tree w' ''commit-message.txt''
       = Some (File (strip_markers (join_with [CHR 0x0A] (report_lines collate now (aggregate rs)))) now)
     \<and> join_with [CHR 0x0A] (report_lines collate now (aggregate rs))
       = hd (report_lines collate now (aggregate rs)) @ [CHR 0x0A]
           @ join_with [CHR 0x0A] (tl (report_lines collate now (aggregate rs)))
     \<and> (\<exists>a b. join_with [CHR 0x0A] (tl (report_lines collate now (aggregate rs)))
              = a @ ([CHR 0x0A] @ ''<pre>'') @ b)"
proof
  assume run: "report collate now rs w = (w', Returned)"
  let ?lines = "report_lines collate now (aggregate rs)"
  from report_returned[OF run]
  have some: "0 < length (changed (aggregate rs)) \<or> 0 < length (failed (aggregate rs))"
    and t: "tree w' = (tree w)(''commit-message.txt'' \<mapsto> File (commitMessage_of ?lines) now,
             ''telegram-message.txt'' \<mapsto> File (telegramMessage_of ?lines) now)"
    by auto
  from t have a: "tree w' ''telegram-message.txt'' = Some (File (join_with [CHR 0x0A] (tl ?lines)) now)"
    by (simp add: telegramMessage_of_def)
  from t have b: "tree w' ''commit-message.txt'' = Some (File (strip_markers (join_with [CHR 0x0A] ?lines)) now)"
    by (simp add: commitMessage_of_def)
  from report_lines_marker[OF some, of collate now]
  have mem: "[CHR 0x0A] @ ''<pre>'' \<in> set (tl ?lines)" .
  then have ne: "tl ?lines \<noteq> []" by auto
  have "?lines \<noteq> []" by (simp add: report_lines_def)
  then have "?lines = hd ?lines # tl ?lines" by simp
  then have "join_with [CHR 0x0A] ?lines = join_with [CHR 0x0A] (hd ?lines # tl ?lines)" by simp
  also have "\<dots> = hd ?lines @ [CHR 0x0A] @ join_with [CHR 0x0A] (tl ?lines)"
    using join_with_Cons[OF ne] .
  finally have c: "join_with [CHR 0x0A] ?lines = hd ?lines @ [CHR 0x0A] @ join_with [CHR 0x0A] (tl ?lines)" .
  from join_with_mem[OF mem, of "[CHR 0x0A]"]
  have d: "\<exists>a b. join_with [CHR 0x0A] (tl ?lines) = a @ ([CHR 0x0A] @ ''<pre>'') @ b" .
  from a b c d show "tree w' ''telegram-message.txt''
       = Some (File (join_with [CHR 0x0A] (tl ?lines)) now)
     \<and> tree w' ''commit-message.txt''
       = Some (File (strip_markers (join_with [CHR 0x0A] ?lines)) now)
     \<and> join_with [CHR 0x0A] ?lines = hd ?lines @ [CHR 0x0A] @ join_with [CHR 0x0A] (tl ?lines)
     \<and> (\<exists>a b. join_with [CHR 0x0A] (tl ?lines) = a @ ([CHR 0x0A] @ ''<pre>'') @ b)"
    by (intro conjI)
qed

theorem report_renderings_witness:
  "snd (report byte_order 2000
      [\<lparr>url = ''https://spaces.im/missing.map'', success = False, files = [], error = Some ''HTTP 404''\<rparr>]
      empty_world) = Returned
   \<and> tree (fst (report byte_order 2000
      [\<lparr>url = ''https://spaces.im/missing.map'', success = False, files = [], error = Some ''HTTP 404''\<rparr>]
      empty_world)) ''telegram-message.txt''
     = Some (File ([CHR 0x0A] @ ''Failed downloads (1):'' @ [CHR 0x0A, CHR 0x0A] @ ''<pre>'' @ [CHR 0x0A]
                   @ ''https://spaces.im/missing.map (HTTP 404)'' @ [CHR 0x0A] @ ''</pre>'') 2000)"
proof -
  let ?missing = "\<lparr>url = ''https://spaces.im/missing.map'', success = False, files = [], error = Some ''HTTP 404''\<rparr>"
  let ?run = "report byte_order 2000 [?missing] empty_world"
  have ret: "snd ?run = Returned" by code_simp
  then have run: "?run = (fst ?run, Returned)" by (simp add: prod_eq_iff)
  have written: "join_with [CHR 0x0A] (tl (report_lines byte_order 2000 (aggregate [?missing])))
      = [CHR 0x0A] @ ''Failed downloads (1):'' @ [CHR 0x0A, CHR 0x0A] @ ''<pre>'' @ [CHR 0x0A]
                   @ ''https://spaces.im/missing.map (HTTP 404)'' @ [CHR 0x0A] @ ''</pre>''"
    by code_simp
  from report_renderings[of byte_order 2000 "[?missing]" empty_world "fst ?run"] run
  have "tree (fst ?run) ''telegram-message.txt''
       = Some (File (join_with [CHR 0x0A] (tl (report_lines byte_order 2000 (aggregate [?missing])))) 2000)"
    by blast
  with ret written show ?thesis by simp
qed

end
